theory Spec2Isabelle
  imports Complex_Main "HOL-Library.Multiset" "HOL-Library.Sublist" "HOL-Library.Product_Lexorder"
begin

section \<open>The task engine of src/components/TaskedApp.jsx\<close>

text \<open>
  The engine is the set of plain functions and state updaters of \<^verbatim>\<open>TaskedApp.jsx\<close>:
  \<^verbatim>\<open>prioritizeTasks\<close>, the \<^verbatim>\<open>filteredTasks\<close> and \<^verbatim>\<open>groupedTasks\<close> projections,
  \<^verbatim>\<open>handleToggleComplete\<close>, \<^verbatim>\<open>handleStatusChange\<close>, \<^verbatim>\<open>calculateMetrics\<close>,
  \<^verbatim>\<open>calculateStreak\<close> and \<^verbatim>\<open>determineFocusArea\<close>.

  Conventions of the embedding.
  \<^item> A JavaScript string is a \<open>string\<close> of ASCII code units; \<^verbatim>\<open>===\<close> on strings is \<open>=\<close>.
  \<^item> A point in time is the number of milliseconds since the epoch, an \<open>int\<close>
    (\<^verbatim>\<open>Date.now()\<close>, \<^verbatim>\<open>new Date(x).getTime()\<close>). The clock is a parameter \<open>now\<close>.
  \<^item> \<open>dueDate\<close> holds the instant that \<^verbatim>\<open>new Date(task.dueDate)\<close> denotes; \<open>None\<close> is a
    missing (\<^verbatim>\<open>null\<close>, \<^verbatim>\<open>undefined\<close>) due date. Date strings that do not parse are outside
    the model.
  \<^item> \<open>createdAt\<close> and \<open>completedAt\<close> are optional numbers. For \<open>completedAt\<close>, \<open>None\<close> is
    \<^verbatim>\<open>undefined\<close> or \<^verbatim>\<open>null\<close>. For \<open>createdAt\<close>, \<open>None\<close> is \<^verbatim>\<open>undefined\<close>; a \<^verbatim>\<open>null\<close> there
    acts as the number \<open>0\<close> in both places that read it (\<^verbatim>\<open>null ?? 0\<close>, \<^verbatim>\<open>new Date(null)\<close>)
    and is \<open>Some 0\<close>.
  \<^item> \<open>status\<close> and \<open>priority\<close> are strings, as in the source: nothing in the code
    restricts them to the known values.
\<close>

subsection \<open>Data model\<close>

record task =
  task_id :: string
  title :: string
  description :: "string option"
  dueDate :: "int option"
  status :: string
  priority :: string
  tags :: "string list option"
  createdAt :: "int option"
  completedAt :: "int option"

text \<open>The keys of \<^verbatim>\<open>STATUS_LABELS\<close>, in the order \<^verbatim>\<open>Object.keys\<close> lists them.\<close>

definition STATUS_KEYS :: "string list" where
  "STATUS_KEYS = [''today'', ''upcoming'', ''backlog'', ''completed'']"

subsection \<open>The two mutation paths\<close>

text \<open>
  \<^verbatim>\<open>handleToggleComplete(taskId)\<close> maps over the collection; \<open>now\<close> is the value of
  \<^verbatim>\<open>Date.now()\<close> at the call. \<^verbatim>\<open>completedAt: undefined\<close> is \<open>None\<close>.
\<close>

definition toggleTask :: "int \<Rightarrow> string \<Rightarrow> task \<Rightarrow> task" where
  "toggleTask now taskId t =
     (if task_id t \<noteq> taskId then t
      else let isDone = (status t = ''completed'')
           in t\<lparr>status := (if isDone then ''today'' else ''completed''),
                completedAt := (if isDone then None else Some now)\<rparr>)"

definition handleToggleComplete :: "int \<Rightarrow> string \<Rightarrow> task list \<Rightarrow> task list" where
  "handleToggleComplete now taskId current = map (toggleTask now taskId) current"

text \<open>\<^verbatim>\<open>handleStatusChange(taskId, nextStatus)\<close>: the move operation.\<close>

definition moveTask :: "string \<Rightarrow> string \<Rightarrow> task \<Rightarrow> task" where
  "moveTask taskId nextStatus t =
     (if task_id t = taskId then t\<lparr>status := nextStatus\<rparr> else t)"

definition handleStatusChange :: "string \<Rightarrow> string \<Rightarrow> task list \<Rightarrow> task list" where
  "handleStatusChange taskId nextStatus current = map (moveTask taskId nextStatus) current"

subsection \<open>JavaScript numbers, as far as the comparators need them\<close>

text \<open>
  The comparators of \<^verbatim>\<open>prioritizeTasks\<close> subtract two keys. A key is a finite number,
  \<^verbatim>\<open>Infinity\<close> (a missing due date) or \<^verbatim>\<open>undefined\<close> (a weight looked up under an unknown
  priority, which the subtraction turns into \<^verbatim>\<open>NaN\<close>). Finite keys are integers here
  (weights, millisecond instants), on which the subtraction of doubles is exact.
\<close>

datatype number = Fin int | PosInf | NegInf | NaN

fun minus_number :: "number \<Rightarrow> number \<Rightarrow> number" where
  "minus_number (Fin a) (Fin b) = Fin (a - b)"
| "minus_number (Fin a) PosInf = NegInf"
| "minus_number (Fin a) NegInf = PosInf"
| "minus_number PosInf (Fin b) = PosInf"
| "minus_number PosInf NegInf = PosInf"
| "minus_number NegInf (Fin b) = NegInf"
| "minus_number NegInf PosInf = NegInf"
| "minus_number PosInf PosInf = NaN"
| "minus_number NegInf NegInf = NaN"
| "minus_number NaN y = NaN"
| "minus_number x NaN = NaN"

text \<open>\<^verbatim>\<open>v > 0\<close> for a comparator result; \<^verbatim>\<open>NaN\<close> counts as \<^verbatim>\<open>+0\<close> in \<^verbatim>\<open>Array.prototype.sort\<close>.\<close>

fun positive :: "number \<Rightarrow> bool" where
  "positive (Fin n) = (0 < n)"
| "positive PosInf = True"
| "positive NegInf = False"
| "positive NaN = False"

subsection \<open>Array.prototype.sort\<close>

text \<open>
  ECMAScript (2019 and later) fixes the result of \<^verbatim>\<open>sort\<close> for a consistent comparator:
  the elements in comparator order, elements that compare equal in their original order.
  The insertion sort below computes that arrangement: going through the array from the
  right, each element is put in front of the first element it does not have to follow.
  For an inconsistent comparator the language leaves the order to the engine; the
  properties proved below are stated for inputs on which the comparator is consistent.
\<close>

fun insertBy :: "('a \<Rightarrow> 'a \<Rightarrow> number) \<Rightarrow> 'a \<Rightarrow> 'a list \<Rightarrow> 'a list" where
  "insertBy cmp x [] = [x]"
| "insertBy cmp x (y # ys) =
     (if positive (cmp x y) then y # insertBy cmp x ys else x # y # ys)"

definition array_sort :: "('a \<Rightarrow> 'a \<Rightarrow> number) \<Rightarrow> 'a list \<Rightarrow> 'a list" where
  "array_sort cmp xs = foldr (insertBy cmp) xs []"

subsection \<open>prioritizeTasks\<close>

text \<open>\<^verbatim>\<open>weights[p]\<close>: \<open>None\<close> is the \<^verbatim>\<open>undefined\<close> of a key that is not in the table.\<close>

definition weights :: "string \<Rightarrow> int option" where
  "weights p =
     (if p = ''high'' then Some 3
      else if p = ''medium'' then Some 2
      else if p = ''low'' then Some 1
      else None)"

definition weightNumber :: "string \<Rightarrow> number" where
  "weightNumber p = (case weights p of Some w \<Rightarrow> Fin w | None \<Rightarrow> NaN)"

definition dueTime :: "task \<Rightarrow> number" where
  "dueTime t = (case dueDate t of Some d \<Rightarrow> Fin d | None \<Rightarrow> PosInf)"

definition createdOrZero :: "task \<Rightarrow> int" where
  "createdOrZero t = (case createdAt t of Some c \<Rightarrow> c | None \<Rightarrow> 0)"

text \<open>The comparator passed to \<^verbatim>\<open>sort\<close>.\<close>

definition compareTasks :: "string \<Rightarrow> task \<Rightarrow> task \<Rightarrow> number" where
  "compareTasks mode a b =
     (if mode = ''priority'' then
        minus_number (weightNumber (priority b)) (weightNumber (priority a))
      else if mode = ''dueDate'' then
        (let aTime = dueTime a; bTime = dueTime b in minus_number aTime bTime)
      else Fin (createdOrZero b - createdOrZero a))"

text \<open>\<^verbatim>\<open>[...tasks].sort(...)\<close>: the sort works on a copy and returns it.\<close>

definition prioritizeTasks :: "task list \<Rightarrow> string \<Rightarrow> task list" where
  "prioritizeTasks tasks mode = array_sort (compareTasks mode) tasks"

text \<open>
  The same function on array references, for the question whether the caller's array is
  changed. A store maps the address of an array to its contents; \<open>fresh\<close> is the next
  unused address. \<^verbatim>\<open>[...tasks]\<close> allocates a new array with the contents of \<^verbatim>\<open>tasks\<close>;
  \<^verbatim>\<open>sort\<close> reorders the array it is called on in place and returns its address.
\<close>

record store =
  arrays :: "nat \<Rightarrow> task list option"
  fresh :: nat

definition spread :: "store \<Rightarrow> nat \<Rightarrow> (store \<times> nat) option" where
  "spread s a =
     (case arrays s a of
        None \<Rightarrow> None
      | Some xs \<Rightarrow> Some (s\<lparr>arrays := (arrays s)(fresh s \<mapsto> xs), fresh := fresh s + 1\<rparr>, fresh s))"

definition sortInPlace :: "(task \<Rightarrow> task \<Rightarrow> number) \<Rightarrow> store \<Rightarrow> nat \<Rightarrow> (store \<times> nat) option" where
  "sortInPlace cmp s a =
     (case arrays s a of
        None \<Rightarrow> None
      | Some xs \<Rightarrow> Some (s\<lparr>arrays := (arrays s)(a \<mapsto> array_sort cmp xs)\<rparr>, a))"

definition prioritizeTasks_ref :: "store \<Rightarrow> nat \<Rightarrow> string \<Rightarrow> (store \<times> nat) option" where
  "prioritizeTasks_ref s tasks mode =
     (case spread s tasks of
        None \<Rightarrow> None
      | Some (s1, copy) \<Rightarrow> sortInPlace (compareTasks mode) s1 copy)"

subsection \<open>filteredTasks\<close>

text \<open>
  String helpers of the language, on ASCII: \<^verbatim>\<open>trim\<close> removes leading and trailing white
  space, \<^verbatim>\<open>toLowerCase\<close> maps \<^verbatim>\<open>A\<close>..\<^verbatim>\<open>Z\<close> to \<^verbatim>\<open>a\<close>..\<^verbatim>\<open>z\<close>, \<^verbatim>\<open>includes\<close> looks for the needle
  at every position, \<^verbatim>\<open>join\<close> puts the separator between the elements.
\<close>

definition isWhiteSpace :: "char \<Rightarrow> bool" where
  "isWhiteSpace c = (of_char c \<in> {9, 10, 11, 12, 13, 32 :: nat})"

definition trim :: "string \<Rightarrow> string" where
  "trim s = rev (dropWhile isWhiteSpace (rev (dropWhile isWhiteSpace s)))"

definition toLowerCaseChar :: "char \<Rightarrow> char" where
  "toLowerCaseChar c =
     (let n = (of_char c :: nat) in if 65 \<le> n \<and> n \<le> 90 then char_of (n + 32) else c)"

definition toLowerCase :: "string \<Rightarrow> string" where
  "toLowerCase s = map toLowerCaseChar s"

fun includes_str :: "string \<Rightarrow> string \<Rightarrow> bool" where
  "includes_str [] needle = (needle = [])"
| "includes_str (c # cs) needle = (prefix needle (c # cs) \<or> includes_str cs needle)"

fun join :: "string \<Rightarrow> string list \<Rightarrow> string" where
  "join sep [] = []"
| "join sep [x] = x"
| "join sep (x # y # ys) = x @ sep @ join sep (y # ys)"

text \<open>
  The template literal
  \<^verbatim>\<open>`${task.title} ${task.description ?? ""} ${task.tags?.join(" ") ?? ""}`\<close>.
\<close>

definition searchText :: "task \<Rightarrow> string" where
  "searchText t =
     title t @ '' '' @ (case description t of Some d \<Rightarrow> d | None \<Rightarrow> [])
       @ '' '' @ (case tags t of Some ts \<Rightarrow> join '' '' ts | None \<Rightarrow> [])"

text \<open>The second half of the callback: the search test.\<close>

definition searchStep :: "string \<Rightarrow> task \<Rightarrow> bool" where
  "searchStep normalizedSearch t =
     (if normalizedSearch \<noteq> [] then
        (let haystack = toLowerCase (searchText t)
         in if \<not> includes_str haystack normalizedSearch then False else True)
      else True)"

text \<open>The callback of \<^verbatim>\<open>tasks.filter\<close>; \<open>criterion\<close> is the state variable \<^verbatim>\<open>filter\<close>.\<close>

definition keepTask :: "string \<Rightarrow> string \<Rightarrow> task \<Rightarrow> bool" where
  "keepTask criterion normalizedSearch t =
     (if criterion \<noteq> ''all'' \<and> status t \<noteq> criterion then
        (if criterion = ''high'' \<and> priority t \<noteq> ''high'' then False
         else if criterion \<noteq> ''high'' then False
         else searchStep normalizedSearch t)
      else searchStep normalizedSearch t)"

definition filteredTasks :: "task list \<Rightarrow> string \<Rightarrow> string \<Rightarrow> task list" where
  "filteredTasks tasks criterion searchTerm =
     (let normalizedSearch = toLowerCase (trim searchTerm)
      in filter (keepTask criterion normalizedSearch) tasks)"

subsection \<open>groupedTasks\<close>

datatype error = TypeError | RangeError

text \<open>
  The accumulator of the reduction is an object literal, so a lookup of a key that is not
  its own finds the properties of \<^verbatim>\<open>Object.prototype\<close>. Each of them is truthy and has no
  \<^verbatim>\<open>push\<close>: for a status with such a name no bucket is created and the call of
  \<^verbatim>\<open>push\<close> throws a \<^verbatim>\<open>TypeError\<close>.
\<close>

definition OBJECT_PROTOTYPE_KEYS :: "string list" where
  "OBJECT_PROTOTYPE_KEYS =
     [''constructor'', ''__defineGetter__'', ''__defineSetter__'', ''hasOwnProperty'',
      ''__lookupGetter__'', ''__lookupSetter__'', ''isPrototypeOf'', ''propertyIsEnumerable'',
      ''toString'', ''valueOf'', ''__proto__'', ''toLocaleString'']"

definition groupStep :: "(string \<rightharpoonup> task list) \<Rightarrow> task \<Rightarrow> error + (string \<rightharpoonup> task list)" where
  "groupStep acc t =
     (case acc (status t) of
        Some bucket \<Rightarrow> Inr (acc(status t \<mapsto> bucket @ [t]))
      | None \<Rightarrow>
          if status t \<in> set OBJECT_PROTOTYPE_KEYS then Inl TypeError
          else Inr (acc(status t \<mapsto> [] @ [t])))"

fun reduceGroup :: "task list \<Rightarrow> (string \<rightharpoonup> task list) \<Rightarrow> error + (string \<rightharpoonup> task list)" where
  "reduceGroup [] acc = Inr acc"
| "reduceGroup (t # ts) acc =
     (case groupStep acc t of Inl e \<Rightarrow> Inl e | Inr acc' \<Rightarrow> reduceGroup ts acc')"

definition groupedTasks :: "task list \<Rightarrow> string \<Rightarrow> error + (string \<rightharpoonup> task list)" where
  "groupedTasks filtered sortMode =
     (let sorted = prioritizeTasks filtered sortMode in reduceGroup sorted Map.empty)"

subsection \<open>calculateStreak\<close>

text \<open>
  Calendar days are local days. The local clock is taken to be at a fixed offset \<open>off\<close>
  (in milliseconds) from UTC over the days looked at, so that every local day has 24
  hours: \<^verbatim>\<open>setHours(0, 0, 0, 0)\<close> goes back to the last local midnight and
  \<^verbatim>\<open>cursor.setDate(today.getDate() - index)\<close> goes back \<open>index\<close> days from a midnight to a
  midnight. Two valid dates have the same \<^verbatim>\<open>toISOString()\<close> exactly when they are the
  same instant, so the set of strings is a set of instants.
\<close>

definition msPerDay :: int where
  "msPerDay = 1000 * 60 * 60 * 24"

definition startOfDay :: "int \<Rightarrow> int \<Rightarrow> int" where
  "startOfDay off t = t - (t + off) mod msPerDay"

definition daysBefore :: "int \<Rightarrow> nat \<Rightarrow> int" where
  "daysBefore today index = today - int index * msPerDay"

text \<open>
  The callback of \<^verbatim>\<open>completedTasks.map\<close>. \<^verbatim>\<open>task.completedAt ? ... : ...\<close> tests
  truthiness, so a \<open>completedAt\<close> of \<open>0\<close> counts as missing; \<^verbatim>\<open>task.dueDate ?? task.createdAt\<close>
  falls back on a missing due date. With all three missing the date is invalid and
  \<^verbatim>\<open>toISOString()\<close> throws a \<^verbatim>\<open>RangeError\<close>.
\<close>

definition fallbackDay :: "int \<Rightarrow> task \<Rightarrow> error + int" where
  "fallbackDay off t =
     (case dueDate t of
        Some d \<Rightarrow> Inr (startOfDay off d)
      | None \<Rightarrow>
          (case createdAt t of
             Some c \<Rightarrow> Inr (startOfDay off c)
           | None \<Rightarrow> Inl RangeError))"

definition completionDay :: "int \<Rightarrow> task \<Rightarrow> error + int" where
  "completionDay off t =
     (case completedAt t of
        Some c \<Rightarrow> if c \<noteq> 0 then Inr (startOfDay off c) else fallbackDay off t
      | None \<Rightarrow> fallbackDay off t)"

fun completedDays :: "int \<Rightarrow> task list \<Rightarrow> error + int list" where
  "completedDays off [] = Inr []"
| "completedDays off (t # ts) =
     (case completionDay off t of
        Inl e \<Rightarrow> Inl e
      | Inr d \<Rightarrow> (case completedDays off ts of Inl e \<Rightarrow> Inl e | Inr ds \<Rightarrow> Inr (d # ds)))"

text \<open>The \<^verbatim>\<open>for\<close> loop, from the state \<open>(index, streak)\<close> on.\<close>

function streakLoop :: "int set \<Rightarrow> int \<Rightarrow> nat \<Rightarrow> nat \<Rightarrow> nat" where
  "streakLoop days today index streak =
     (if index < 10 then
        (if daysBefore today index \<in> days then streakLoop days today (index + 1) (streak + 1)
         else streak)
      else streak)"
  by pat_completeness auto
termination
  by (relation "measure (\<lambda>(days, today, index, streak). 10 - index)") auto

declare streakLoop.simps [simp del]

definition calculateStreak :: "int \<Rightarrow> int \<Rightarrow> task list \<Rightarrow> error + nat" where
  "calculateStreak off now completedTasks =
     (if length completedTasks = 0 then Inr 0
      else case completedDays off completedTasks of
             Inl e \<Rightarrow> Inl e
           | Inr ds \<Rightarrow>
               (let days = set ds; today = startOfDay off now
                in Inr (streakLoop days today 0 0)))"

subsection \<open>determineFocusArea and calculateMetrics\<close>

text \<open>
  Ratios are rationals. The doubles of the source agree with them where it matters: a
  quotient \<open>k / n\<close> of array lengths is at least the double \<^verbatim>\<open>0.8\<close> exactly when
  \<open>k / n \<ge> 4 / 5\<close>, \<^verbatim>\<open>Math.ceil(activeCount * 0.4)\<close> is the ceiling of \<open>2 * activeCount / 5\<close>,
  and a difference of instants divided by the length of a day lies in \<open>[0, 3]\<close> exactly
  when the difference lies between \<open>0\<close> and three days. Percentages are the exception:
  they are rounded from the exact ratio here, and the double \<^verbatim>\<open>(count / total) * 100\<close> can
  fall just below a half that the exact ratio reaches (23 of 40 is 58 here and 57 in
  doubles). Nothing below relies on a percentage other than that of a count of 0.
  The recommendation is returned by its title; the body text and the wording of the
  momentum comment are display strings and are left out.
\<close>

definition determineFocusArea :: "rat \<Rightarrow> nat \<Rightarrow> nat \<Rightarrow> string" where
  "determineFocusArea completionRate' activeCount' dueSoon' =
     (if completionRate' \<ge> 0.8 then ''Celebrate & optimize''
      else if int dueSoon' \<ge> max 2 \<lceil>of_nat activeCount' * (0.4 :: rat)\<rceil> then
        ''Tackle upcoming deadlines''
      else if activeCount' \<ge> 6 then ''Streamline the workload''
      else ''Build the habit'')"

datatype momentum = MomentumHigh | SolidPace | PlotNextMove

record statusShare =
  shareStatus :: string
  shareCount :: nat
  sharePercentage :: int

record metrics =
  completionRate :: rat
  highPriority :: nat
  dueSoon :: nat
  activeCount :: nat
  streak :: nat
  momentumComment :: momentum
  byStatus :: "statusShare list"
  focusArea :: string

text \<open>\<^verbatim>\<open>Math.round\<close>: the nearest integer, a half going up.\<close>

definition mathRound :: "rat \<Rightarrow> int" where
  "mathRound x = \<lfloor>x + 1 / 2\<rfloor>"

text \<open>The callback of the \<^verbatim>\<open>dueSoon\<close> filter.\<close>

definition isDueSoon :: "int \<Rightarrow> task \<Rightarrow> bool" where
  "isDueSoon now t =
     (case dueDate t of
        None \<Rightarrow> False
      | Some d \<Rightarrow>
          (let diffDays = (of_int (d - now) :: rat) / (1000 * 60 * 60 * 24)
           in diffDays \<ge> 0 \<and> diffDays \<le> 3))"

text \<open>\<^verbatim>\<open>tasks.length || 1\<close>, the divisor of every ratio.\<close>

definition total_tasks :: "task list \<Rightarrow> nat" where
  "total_tasks tasks = (if length tasks = 0 then 1 else length tasks)"

definition calculateMetrics :: "int \<Rightarrow> int \<Rightarrow> task list \<Rightarrow> error + metrics" where
  "calculateMetrics off now tasks =
     (let total = total_tasks tasks;
          completed = filter (\<lambda>t. status t = ''completed'') tasks;
          active = filter (\<lambda>t. status t \<noteq> ''completed'') tasks;
          completionRate' = (of_nat (length completed) :: rat) / of_nat total;
          dueSoon' = length (filter (isDueSoon now) active);
          highPriority' = length (filter (\<lambda>t. priority t = ''high'') active)
      in case calculateStreak off now completed of
           Inl e \<Rightarrow> Inl e
         | Inr streak' \<Rightarrow>
             (let byStatus' =
                    map (\<lambda>s. let count = length (filter (\<lambda>t. status t = s) tasks)
                             in \<lparr>shareStatus = s, shareCount = count,
                                 sharePercentage =
                                   (if total = 0 then 0
                                    else mathRound ((of_nat count / of_nat total) * 100))\<rparr>)
                        STATUS_KEYS;
                  focusArea' = determineFocusArea completionRate' (length active) dueSoon';
                  momentumComment' =
                    (if completionRate' \<ge> 0.8 then MomentumHigh
                     else if completionRate' \<ge> 0.5 then SolidPace
                     else PlotNextMove)
              in Inr \<lparr>completionRate = completionRate', highPriority = highPriority',
                      dueSoon = dueSoon', activeCount = length active, streak = streak',
                      momentumComment = momentumComment', byStatus = byStatus',
                      focusArea = focusArea'\<rparr>))"

subsection \<open>Sample data\<close>

text \<open>
  Three of the tasks of \<^verbatim>\<open>DEFAULT_TASKS\<close>, with the clock at 15:00 UTC on day 20000 after
  the epoch: \<open>kickoff\<close> is due at noon of that day, \<open>retro\<close> at noon of the next day, \<open>docs\<close>
  was due at noon of the day before and was completed two hours ago.
\<close>

definition sampleNow :: int where
  "sampleNow = 1728054000000"

definition kickoff :: task where
  "kickoff = \<lparr>task_id = ''kickoff'', title = ''Sprint planning for Q4'',
     description = Some ''Finalize scope, align owners, and set capacity targets.'',
     dueDate = Some 1728043200000, status = ''today'', priority = ''high'',
     tags = Some [''Planning'', ''Team''], createdAt = Some 1728010800000,
     completedAt = None\<rparr>"

definition retro :: task where
  "retro = \<lparr>task_id = ''retro'', title = ''Gather retro notes'',
     description = Some ''Collect learnings and kudos from the previous iteration.'',
     dueDate = Some 1728129600000, status = ''upcoming'', priority = ''medium'',
     tags = Some [''Process''], createdAt = Some 1728032400000,
     completedAt = None\<rparr>"

definition docs :: task where
  "docs = \<lparr>task_id = ''docs'', title = ''Update api docs'',
     description = Some ''Document the new webhook endpoints and example payloads.'',
     dueDate = Some 1727956800000, status = ''completed'', priority = ''low'',
     tags = Some [''Docs''], createdAt = Some 1727924400000,
     completedAt = Some 1728046800000\<rparr>"

text \<open>A task whose status is none of the four known ones.\<close>

definition archived :: task where
  "archived = \<lparr>task_id = ''old'', title = ''Old idea'', description = None,
     dueDate = None, status = ''archived'', priority = ''low'', tags = None,
     createdAt = Some 1727924400000, completedAt = None\<rparr>"

text \<open>
  The tasks of the sorting scenario: \<open>taskA\<close> (high, due in five days), \<open>taskB\<close> (low,
  due the next day), \<open>taskC\<close> (medium, due in two days, no creation instant).
\<close>

definition taskA :: task where
  "taskA = \<lparr>task_id = ''A'', title = ''Alpha'', description = None,
     dueDate = Some 1728475200000, status = ''today'', priority = ''high'', tags = None,
     createdAt = Some 1728010800000, completedAt = None\<rparr>"

definition taskB :: task where
  "taskB = \<lparr>task_id = ''B'', title = ''Beta'', description = None,
     dueDate = Some 1728129600000, status = ''today'', priority = ''low'', tags = None,
     createdAt = Some 1728010800001, completedAt = None\<rparr>"

definition taskC :: task where
  "taskC = \<lparr>task_id = ''C'', title = ''Gamma'', description = None,
     dueDate = Some 1728216000000, status = ''backlog'', priority = ''medium'', tags = None,
     createdAt = None, completedAt = None\<rparr>"


subsection \<open>Notions used to state the sorting properties\<close>

text \<open>
  The orders the three modes are meant to produce, read off the claim: the weight of the
  earlier task is not below the weight of the later one; the earlier task is due no
  later than the later one, a missing due date counting as infinitely late; the earlier
  task was created no earlier than the later one, a missing creation instant counting
  as \<open>0\<close>. \<open>sameSortKey\<close> says that two tasks have the same key under a mode.
  \<open>priorityKey\<close>, \<open>dueKey\<close> and \<open>createdKey\<close> are the same keys as values of a linear
  order (a pair \<open>(True, _)\<close> is the infinite key), used in the proofs only.
\<close>

definition knownPriority :: "string \<Rightarrow> bool" where
  "knownPriority p = (p = ''high'' \<or> p = ''medium'' \<or> p = ''low'')"

definition weightNotBelow :: "task \<Rightarrow> task \<Rightarrow> bool" where
  "weightNotBelow a b =
     (case weights (priority a) of
        None \<Rightarrow> False
      | Some wa \<Rightarrow> (case weights (priority b) of None \<Rightarrow> False | Some wb \<Rightarrow> wb \<le> wa))"

definition dueNotAfter :: "task \<Rightarrow> task \<Rightarrow> bool" where
  "dueNotAfter a b =
     (case dueDate b of
        None \<Rightarrow> True
      | Some y \<Rightarrow> (case dueDate a of None \<Rightarrow> False | Some x \<Rightarrow> x \<le> y))"

definition createdNotBefore :: "task \<Rightarrow> task \<Rightarrow> bool" where
  "createdNotBefore a b =
     ((case createdAt b of Some c \<Rightarrow> c | None \<Rightarrow> 0)
        \<le> (case createdAt a of Some c \<Rightarrow> c | None \<Rightarrow> 0))"

definition priorityKey :: "task \<Rightarrow> int" where
  "priorityKey t = (case weights (priority t) of Some w \<Rightarrow> - w | None \<Rightarrow> 0)"

definition dueKey :: "task \<Rightarrow> bool \<times> int" where
  "dueKey t = (case dueDate t of Some d \<Rightarrow> (False, d) | None \<Rightarrow> (True, 0))"

definition createdKey :: "task \<Rightarrow> int" where
  "createdKey t = - createdOrZero t"


definition sameSortKey :: "string \<Rightarrow> task \<Rightarrow> task \<Rightarrow> bool" where
  "sameSortKey mode a b =
     (if mode = ''priority'' then weights (priority b) = weights (priority a)
      else if mode = ''dueDate'' then dueDate b = dueDate a
      else (case createdAt b of Some c \<Rightarrow> c | None \<Rightarrow> 0)
             = (case createdAt a of Some c \<Rightarrow> c | None \<Rightarrow> 0))"

text \<open>A store with one array, \<open>[taskA, taskB, taskC]\<close>, at address \<open>0\<close>.\<close>

definition sampleStore :: store where
  "sampleStore = \<lparr>arrays = [0 \<mapsto> [taskA, taskB, taskC]], fresh = 1\<rparr>"

subsection \<open>Notions used to state the filter property\<close>

text \<open>
  The matching rule in the words of the claim, written without the helpers the code
  computes with. A status value is one of the four keys of \<^verbatim>\<open>STATUS_LABELS\<close>.
  \<^item> White space is a table of six characters (tab, line feed, vertical tab, form feed,
    carriage return, space). \<open>core\<close> is the trimmed form of \<open>s\<close> when \<open>s\<close> is \<open>core\<close> with
    white space only before and after it, and \<open>core\<close> neither starts nor ends with white
    space.
  \<^item> Two strings are the same ignoring case when they agree after every capital letter
    of the table \<open>A\<close>..\<open>Z\<close> is replaced by its small letter. A needle occurs in a text
    ignoring case when some contiguous part of the text is the same as the needle ignoring
    case.
  \<^item> The combined text of a task is its title, its description (empty if absent) and
    its tags, each part separated from the next by one space; the tags are themselves
    separated by one space.
  \<^item> A task matches a search term when the trimmed term is empty or occurs in the
    combined text ignoring case.
  The tables are the ASCII ones: \<open>asciiString\<close> and \<open>asciiTask\<close> say that a string, or
  every text field of a task, holds ASCII characters only, where \<^verbatim>\<open>trim\<close> and
  \<^verbatim>\<open>toLowerCase\<close> of the language are what the tables say.
\<close>

definition knownStatus :: "string \<Rightarrow> bool" where
  "knownStatus s = (s \<in> set STATUS_KEYS)"

definition matchesCriterion :: "string \<Rightarrow> task \<Rightarrow> bool" where
  "matchesCriterion criterion t =
     (criterion = ''all''
      \<or> (criterion = ''high'' \<and> priority t = ''high'')
      \<or> (knownStatus criterion \<and> status t = criterion))"

definition SPACE_CHARS :: "char list" where
  "SPACE_CHARS = [CHR 0x09, CHR 0x0A, CHR 0x0B, CHR 0x0C, CHR 0x0D, CHR '' '']"

definition spaceChar :: "char \<Rightarrow> bool" where
  "spaceChar c = (c \<in> set SPACE_CHARS)"

definition LETTER_PAIRS :: "(char \<times> char) list" where
  "LETTER_PAIRS = zip ''ABCDEFGHIJKLMNOPQRSTUVWXYZ'' ''abcdefghijklmnopqrstuvwxyz''"

definition foldLetter :: "char \<Rightarrow> char" where
  "foldLetter c = (case map_of LETTER_PAIRS c of Some l \<Rightarrow> l | None \<Rightarrow> c)"

definition sameIgnoringCase :: "string \<Rightarrow> string \<Rightarrow> bool" where
  "sameIgnoringCase a b = (map foldLetter a = map foldLetter b)"

definition isTrimOf :: "string \<Rightarrow> string \<Rightarrow> bool" where
  "isTrimOf core s =
     (\<exists>pre \<in> set (prefixes s). \<exists>post \<in> set (suffixes s).
        s = pre @ core @ post \<and> list_all spaceChar pre \<and> list_all spaceChar post
        \<and> (core = [] \<or> \<not> (spaceChar (hd core) \<or> spaceChar (last core))))"

definition spaced :: "string list \<Rightarrow> string" where
  "spaced parts =
     (case parts of [] \<Rightarrow> [] | x # xs \<Rightarrow> x @ concat (map (\<lambda>y. CHR '' '' # y) xs))"

definition combinedText :: "task \<Rightarrow> string" where
  "combinedText t =
     spaced [title t,
             (case description t of None \<Rightarrow> [] | Some d \<Rightarrow> d),
             spaced (case tags t of None \<Rightarrow> [] | Some ts \<Rightarrow> ts)]"

definition occursIgnoringCase :: "string \<Rightarrow> string \<Rightarrow> bool" where
  "occursIgnoringCase needle text = (\<exists>mid \<in> set (sublists text). sameIgnoringCase mid needle)"

definition matchesSearch :: "string \<Rightarrow> task \<Rightarrow> bool" where
  "matchesSearch searchTerm t =
     (\<exists>core \<in> set (sublists searchTerm).
        isTrimOf core searchTerm \<and> (core = [] \<or> occursIgnoringCase core (combinedText t)))"

definition asciiString :: "string \<Rightarrow> bool" where
  "asciiString s = list_all (\<lambda>c. (of_char c :: nat) < 128) s"

definition asciiTask :: "task \<Rightarrow> bool" where
  "asciiTask t =
     (asciiString (title t)
      \<and> (case description t of None \<Rightarrow> True | Some d \<Rightarrow> asciiString d)
      \<and> (case tags t of None \<Rightarrow> True | Some ts \<Rightarrow> list_all asciiString ts))"

subsection \<open>Notions used to state the grouping property\<close>

text \<open>
  A status is safe when it does not name a property of \<^verbatim>\<open>Object.prototype\<close>, so that the
  reduction does not throw on it. \<open>bucketOf\<close> reads a bucket of the accumulator, a missing
  one as the empty list.
\<close>


definition safeStatus :: "task \<Rightarrow> bool" where
  "safeStatus t = (status t \<notin> set OBJECT_PROTOTYPE_KEYS)"

definition bucketOf :: "(string \<rightharpoonup> task list) \<Rightarrow> string \<Rightarrow> task list" where
  "bucketOf acc s = (case acc s of None \<Rightarrow> [] | Some b \<Rightarrow> b)"

subsection \<open>Notions used to state the metrics properties\<close>

text \<open>
  \<open>dueWithinWindow\<close>: the due instant lies in the inclusive window from \<open>now\<close> to three
  days after \<open>now\<close>; no due date, no window.
  \<open>completionInstant\<close>: the instant a completed task is counted at, in the words of the
  claim: \<open>completedAt\<close> if present, else \<open>dueDate\<close> if present, else \<open>createdAt\<close>.
  \<open>completedDayList\<close>: the local days of the completed tasks.
  \<open>undated\<close>: a completed task that offers no instant at all, on which
  \<^verbatim>\<open>calculateStreak\<close> throws. \<open>zeroStamped\<close>: a completed task whose \<open>completedAt\<close> is
  the number \<open>0\<close>, which the truthiness test of the source treats as missing.
\<close>

definition dueWithinWindow :: "int \<Rightarrow> task \<Rightarrow> bool" where
  "dueWithinWindow now t =
     (case dueDate t of None \<Rightarrow> False | Some d \<Rightarrow> now \<le> d \<and> d \<le> now + 3 * msPerDay)"

definition completionInstant :: "task \<Rightarrow> int option" where
  "completionInstant t =
     (case completedAt t of
        Some c \<Rightarrow> Some c
      | None \<Rightarrow> (case dueDate t of Some d \<Rightarrow> Some d | None \<Rightarrow> createdAt t))"

definition completedDayList :: "int \<Rightarrow> task list \<Rightarrow> int list" where
  "completedDayList off tasks =
     List.map_filter (\<lambda>t. map_option (startOfDay off) (completionInstant t))
       (filter (\<lambda>t. status t = ''completed'') tasks)"

definition undated :: "task \<Rightarrow> bool" where
  "undated t =
     (status t = ''completed''
      \<and> (completedAt t = None \<or> completedAt t = Some 0)
      \<and> dueDate t = None \<and> createdAt t = None)"

definition zeroStamped :: "task \<Rightarrow> bool" where
  "zeroStamped t = (status t = ''completed'' \<and> completedAt t = Some 0)"

text \<open>
  Two more completed tasks for the streak scenario: \<open>shipped\<close> has no \<open>completedAt\<close> and
  was due the day before \<open>sampleNow\<close>; \<open>cleanup\<close> has neither and was created two days
  before.
\<close>

definition shipped :: task where
  "shipped = \<lparr>task_id = ''shipped'', title = ''Ship release notes'', description = None,
     dueDate = Some 1727956800000, status = ''completed'', priority = ''medium'',
     tags = None, createdAt = Some 1727700000000, completedAt = None\<rparr>"

definition cleanup :: task where
  "cleanup = \<lparr>task_id = ''cleanup'', title = ''Clean up branches'', description = None,
     dueDate = None, status = ''completed'', priority = ''low'',
     tags = None, createdAt = Some 1727881200000, completedAt = None\<rparr>"

section \<open>Properties\<close>

subsection \<open>Toggle and move\<close>

text \<open>
  C9. \<open>completedAt\<close> is written by the toggle operation only. Position by position:
  toggling a task that is not completed makes it completed and stamps \<open>completedAt\<close>
  with the current instant; toggling a completed task clears \<open>completedAt\<close>; toggle leaves
  the tasks with another id as they are. The move operation keeps the length of the
  collection, sets nothing but \<open>status\<close> on the moved task (so \<open>completedAt\<close> and every other
  field keep their values) and leaves every other task unchanged.
\<close>

theorem completedAt_written_by_toggle_only:
  "length (handleToggleComplete now taskId current) = length current
   \<and> length (handleStatusChange taskId nextStatus current) = length current
   \<and> (\<forall>i < length current.
        (task_id (current ! i) = taskId \<and> status (current ! i) \<noteq> ''completed''
           \<longrightarrow> handleToggleComplete now taskId current ! i
                 = (current ! i)\<lparr>status := ''completed'', completedAt := Some now\<rparr>)
      \<and> (task_id (current ! i) = taskId \<and> status (current ! i) = ''completed''
           \<longrightarrow> completedAt (handleToggleComplete now taskId current ! i) = None)
      \<and> (task_id (current ! i) \<noteq> taskId
           \<longrightarrow> handleToggleComplete now taskId current ! i = current ! i)
      \<and> (task_id (current ! i) = taskId
           \<longrightarrow> handleStatusChange taskId nextStatus current ! i
                 = (current ! i)\<lparr>status := nextStatus\<rparr>)
      \<and> completedAt (handleStatusChange taskId nextStatus current ! i)
            = completedAt (current ! i)
      \<and> (task_id (current ! i) \<noteq> taskId
           \<longrightarrow> handleStatusChange taskId nextStatus current ! i = current ! i))"
  by (simp add: handleToggleComplete_def handleStatusChange_def toggleTask_def moveTask_def)

theorem completedAt_written_by_toggle_only_witness:
  "handleToggleComplete sampleNow ''kickoff'' [kickoff, docs]
     = [kickoff\<lparr>status := ''completed'', completedAt := Some sampleNow\<rparr>, docs]
   \<and> completedAt (handleToggleComplete sampleNow ''docs'' [kickoff, docs] ! 1) = None
   \<and> handleStatusChange ''kickoff'' ''completed'' [kickoff, docs]
     = [kickoff\<lparr>status := ''completed''\<rparr>, docs]
   \<and> completedAt (handleStatusChange ''kickoff'' ''completed'' [kickoff, docs] ! 0) = None"
proof -
  have ids: "task_id kickoff = ''kickoff''" "task_id docs = ''docs''"
    "status kickoff \<noteq> ''completed''" "status docs = ''completed''"
    "completedAt kickoff = None"
    by (simp_all add: kickoff_def docs_def)
  note gen = completedAt_written_by_toggle_only [where current = "[kickoff, docs]"]
  have a0: "handleToggleComplete sampleNow ''kickoff'' [kickoff, docs] ! 0
              = kickoff\<lparr>status := ''completed'', completedAt := Some sampleNow\<rparr>"
    and a1: "handleToggleComplete sampleNow ''kickoff'' [kickoff, docs] ! 1 = docs"
    and la: "length (handleToggleComplete sampleNow ''kickoff'' [kickoff, docs]) = 2"
    using gen [of sampleNow "''kickoff''" "''x''"] ids by (simp_all add: nth_Cons')
  have b1: "completedAt (handleToggleComplete sampleNow ''docs'' [kickoff, docs] ! 1) = None"
    using gen [of sampleNow "''docs''" "''x''"] ids by (simp add: nth_Cons')
  have c0: "handleStatusChange ''kickoff'' ''completed'' [kickoff, docs] ! 0
              = kickoff\<lparr>status := ''completed''\<rparr>"
    and c1: "handleStatusChange ''kickoff'' ''completed'' [kickoff, docs] ! 1 = docs"
    and c2: "completedAt (handleStatusChange ''kickoff'' ''completed'' [kickoff, docs] ! 0) = None"
    and lc: "length (handleStatusChange ''kickoff'' ''completed'' [kickoff, docs]) = 2"
    using gen [of sampleNow "''kickoff''" "''completed''"] ids by (simp_all add: nth_Cons')
  have two: "\<And>xs a b. length xs = 2 \<Longrightarrow> xs ! 0 = a \<Longrightarrow> xs ! 1 = b \<Longrightarrow> xs = [a, b :: task]"
    by (auto simp: length_Suc_conv numeral_2_eq_2)
  show ?thesis
    using two [OF la a0 a1] two [OF lc c0 c1] b1 c2 by simp
qed

text \<open>
  C10. Toggling a completed task sets its status to the fixed value \<open>today\<close> and clears
  \<open>completedAt\<close>, whatever the task was before: a task that was not completed and is
  completed by a toggle, or by a move, comes back from the next toggle with status
  \<open>today\<close>, not with the status it had.
\<close>

theorem toggle_completed_resets_to_today:
  "\<forall>i < length current.
      task_id (current ! i) = taskId \<longrightarrow>
        (status (current ! i) = ''completed'' \<longrightarrow>
           handleToggleComplete now taskId current ! i
             = (current ! i)\<lparr>status := ''today'', completedAt := None\<rparr>)
      \<and> (status (current ! i) \<noteq> ''completed'' \<longrightarrow>
           handleToggleComplete now' taskId (handleToggleComplete now taskId current) ! i
             = (current ! i)\<lparr>status := ''today'', completedAt := None\<rparr>)
      \<and> handleToggleComplete now taskId (handleStatusChange taskId ''completed'' current) ! i
             = (current ! i)\<lparr>status := ''today'', completedAt := None\<rparr>"
  by (simp add: handleToggleComplete_def handleStatusChange_def toggleTask_def moveTask_def)

theorem toggle_completed_resets_to_today_witness:
  "status retro = ''upcoming''
   \<and> handleToggleComplete (sampleNow + 5) ''retro''
        (handleToggleComplete sampleNow ''retro'' [kickoff, retro]) ! 1
       = retro\<lparr>status := ''today'', completedAt := None\<rparr>
   \<and> handleToggleComplete sampleNow ''docs'' [docs] ! 0
       = docs\<lparr>status := ''today'', completedAt := None\<rparr>"
proof -
  have ids: "task_id retro = ''retro''" "status retro = ''upcoming''"
    "task_id docs = ''docs''" "status docs = ''completed''"
    by (simp_all add: retro_def docs_def)
  show ?thesis
    using toggle_completed_resets_to_today [of "[kickoff, retro]" "''retro''" sampleNow "sampleNow + 5"]
      toggle_completed_resets_to_today [of "[docs]" "''docs''" sampleNow sampleNow] ids
    by simp
qed

subsection \<open>Sorting\<close>

text \<open>
  On a list whose comparator is consistent, the insertion sort of \<open>array_sort\<close> is the
  stable sort by a key of a linear order.
\<close>

lemma insertBy_insort_key:
  assumes "\<And>y. y \<in> set ys \<Longrightarrow> positive (cmp x y) \<longleftrightarrow> key y < key x"
  shows "insertBy cmp x ys = insort_key key x ys"
  using assms by (induction ys) (auto simp: not_le)

lemma array_sort_sort_key:
  fixes key :: "'a \<Rightarrow> 'k::linorder"
  assumes "\<And>a b. a \<in> set xs \<Longrightarrow> b \<in> set xs \<Longrightarrow> positive (cmp a b) \<longleftrightarrow> key b < key a"
  shows "array_sort cmp xs = sort_key key xs"
  using assms
proof (induction xs)
  case Nil
  then show ?case by (simp add: array_sort_def)
next
  case (Cons x xs)
  have ih: "array_sort cmp xs = sort_key key xs"
    using Cons by simp
  have "insertBy cmp x (sort_key key xs) = insort_key key x (sort_key key xs)"
    by (rule insertBy_insort_key) (simp add: Cons.prems)
  then show ?case
    using ih by (simp add: array_sort_def)
qed

lemma mset_insertBy: "mset (insertBy cmp x ys) = add_mset x (mset ys)"
  by (induction ys) auto

lemma mset_array_sort: "mset (array_sort cmp xs) = mset xs"
  by (induction xs) (simp_all add: array_sort_def mset_insertBy)

lemma weights_known_pos: "knownPriority p \<Longrightarrow> \<exists>w. weights p = Some w \<and> 1 \<le> w"
  by (auto simp: knownPriority_def weights_def)

lemma weights_known: "knownPriority p \<Longrightarrow> \<exists>w. weights p = Some w"
  using weights_known_pos by blast

lemma weights_pos: "weights p = Some w \<Longrightarrow> 1 \<le> w"
  by (auto simp: weights_def split: if_splits)

lemma compare_priority:
  assumes "knownPriority (priority a)" "knownPriority (priority b)"
  shows "positive (compareTasks ''priority'' a b) \<longleftrightarrow> priorityKey b < priorityKey a"
proof -
  obtain wa wb where "weights (priority a) = Some wa" "weights (priority b) = Some wb"
    using assms weights_known by blast
  then show ?thesis
    by (simp add: compareTasks_def weightNumber_def priorityKey_def)
qed

lemma compare_dueDate:
  "positive (compareTasks ''dueDate'' a b) \<longleftrightarrow> dueKey b < dueKey a"
  by (cases "dueDate a"; cases "dueDate b")
     (simp_all add: compareTasks_def dueTime_def dueKey_def)

lemma compare_createdAt:
  assumes "mode \<noteq> ''priority''" "mode \<noteq> ''dueDate''"
  shows "positive (compareTasks mode a b) \<longleftrightarrow> createdKey b < createdKey a"
  using assms by (simp add: compareTasks_def createdKey_def)

lemma prioritize_priority:
  assumes "\<forall>t\<in>set tasks. knownPriority (priority t)"
  shows "prioritizeTasks tasks ''priority'' = sort_key priorityKey tasks"
  unfolding prioritizeTasks_def
  by (rule array_sort_sort_key) (simp add: compare_priority assms)

lemma prioritize_dueDate: "prioritizeTasks tasks ''dueDate'' = sort_key dueKey tasks"
  unfolding prioritizeTasks_def
  by (rule array_sort_sort_key) (simp add: compare_dueDate)

lemma prioritize_createdAt:
  assumes "mode \<noteq> ''priority''" "mode \<noteq> ''dueDate''"
  shows "prioritizeTasks tasks mode = sort_key createdKey tasks"
  unfolding prioritizeTasks_def
  by (rule array_sort_sort_key) (simp add: compare_createdAt assms)

lemma sorted_priority:
  assumes "\<forall>t\<in>set tasks. knownPriority (priority t)"
  shows "sorted_wrt weightNotBelow (prioritizeTasks tasks ''priority'')"
proof -
  have "sorted (map priorityKey (sort_key priorityKey tasks))"
    by simp
  then have s: "sorted_wrt (\<lambda>a b. priorityKey a \<le> priorityKey b) (sort_key priorityKey tasks)"
    by (simp add: sorted_map)
  have "sorted_wrt weightNotBelow (sort_key priorityKey tasks)"
  proof (rule sorted_wrt_mono_rel [OF _ s])
    fix a b
    assume "a \<in> set (sort_key priorityKey tasks)" "b \<in> set (sort_key priorityKey tasks)"
      and le: "priorityKey a \<le> priorityKey b"
    then have "knownPriority (priority a)" "knownPriority (priority b)"
      using assms by simp_all
    then obtain wa wb where "weights (priority a) = Some wa" "weights (priority b) = Some wb"
      using weights_known by blast
    then show "weightNotBelow a b"
      using le by (simp add: weightNotBelow_def priorityKey_def)
  qed
  then show ?thesis
    by (simp add: prioritize_priority assms)
qed

lemma sorted_dueDate: "sorted_wrt dueNotAfter (prioritizeTasks tasks ''dueDate'')"
proof -
  have "sorted (map dueKey (sort_key dueKey tasks))"
    by simp
  then have s: "sorted_wrt (\<lambda>a b. dueKey a \<le> dueKey b) (sort_key dueKey tasks)"
    by (simp add: sorted_map)
  have "sorted_wrt dueNotAfter (sort_key dueKey tasks)"
  proof (rule sorted_wrt_mono_rel [OF _ s])
    fix a b
    assume "dueKey a \<le> dueKey b"
    then show "dueNotAfter a b"
      by (cases "dueDate a"; cases "dueDate b") (simp_all add: dueNotAfter_def dueKey_def)
  qed
  then show ?thesis
    by (simp add: prioritize_dueDate)
qed

lemma sorted_createdAt:
  assumes "mode \<noteq> ''priority''" "mode \<noteq> ''dueDate''"
  shows "sorted_wrt createdNotBefore (prioritizeTasks tasks mode)"
proof -
  have "sorted (map createdKey (sort_key createdKey tasks))"
    by simp
  then have s: "sorted_wrt (\<lambda>a b. createdKey a \<le> createdKey b) (sort_key createdKey tasks)"
    by (simp add: sorted_map)
  have "sorted_wrt createdNotBefore (sort_key createdKey tasks)"
  proof (rule sorted_wrt_mono_rel [OF _ s])
    fix a b
    assume "createdKey a \<le> createdKey b"
    then show "createdNotBefore a b"
      by (simp add: createdNotBefore_def createdKey_def createdOrZero_def)
  qed
  then show ?thesis
    by (simp add: prioritize_createdAt assms)
qed

lemma prioritizeTasks_ref_frame:
  fixes s :: store
  assumes "arrays s a = Some tasks" "arrays s (fresh s) = None"
  shows "\<exists>s'. prioritizeTasks_ref s a mode = Some (s', fresh s)
           \<and> arrays s' (fresh s) = Some (prioritizeTasks tasks mode)
           \<and> (\<forall>b. b \<noteq> fresh s \<longrightarrow> arrays s' b = arrays s b)"
  using assms
  by (simp add: prioritizeTasks_ref_def spread_def sortInPlace_def prioritizeTasks_def)


text \<open>
  C4. \<open>prioritizeTasks\<close> returns a rearrangement of its input, ordered by the key of the
  mode: under \<open>priority\<close> by descending weight (high 3, medium 2, low 1), for tasks whose
  priorities are in the table; under \<open>dueDate\<close> by ascending due instant, tasks without a
  due date last; under any other mode by descending creation instant, a missing one
  counting as \<open>0\<close>. On array references, the call allocates the array it returns and
  leaves every array of the store, the caller's among them, as it was.
\<close>

theorem prioritizeTasks_sorts_by_mode:
  assumes "mode = ''priority'' \<longrightarrow> (\<forall>t\<in>set tasks. knownPriority (priority t))"
  shows "mset (prioritizeTasks tasks mode) = mset tasks
    \<and> weights ''high'' = Some 3 \<and> weights ''medium'' = Some 2 \<and> weights ''low'' = Some 1
    \<and> (mode = ''priority'' \<longrightarrow> sorted_wrt weightNotBelow (prioritizeTasks tasks mode))
    \<and> (mode = ''dueDate'' \<longrightarrow> sorted_wrt dueNotAfter (prioritizeTasks tasks mode))
    \<and> (mode \<noteq> ''priority'' \<and> mode \<noteq> ''dueDate''
         \<longrightarrow> sorted_wrt createdNotBefore (prioritizeTasks tasks mode))
    \<and> (\<forall>(s::store) a. arrays s a = Some tasks \<and> arrays s (fresh s) = None \<longrightarrow>
          (\<exists>s' r. prioritizeTasks_ref s a mode = Some (s', r)
             \<and> arrays s' r = Some (prioritizeTasks tasks mode)
             \<and> arrays s' a = Some tasks
             \<and> (\<forall>b. b \<noteq> r \<longrightarrow> arrays s' b = arrays s b)))"
proof -
  have perm: "mset (prioritizeTasks tasks mode) = mset tasks"
    by (simp add: prioritizeTasks_def mset_array_sort)
  have tab: "weights ''high'' = Some 3 \<and> weights ''medium'' = Some 2 \<and> weights ''low'' = Some 1"
    by (simp add: weights_def)
  have p: "mode = ''priority'' \<longrightarrow> sorted_wrt weightNotBelow (prioritizeTasks tasks mode)"
    using assms sorted_priority by blast
  have d: "mode = ''dueDate'' \<longrightarrow> sorted_wrt dueNotAfter (prioritizeTasks tasks mode)"
    using sorted_dueDate by blast
  have c: "mode \<noteq> ''priority'' \<and> mode \<noteq> ''dueDate''
             \<longrightarrow> sorted_wrt createdNotBefore (prioritizeTasks tasks mode)"
    using sorted_createdAt by blast
  have f: "\<forall>(s::store) a. arrays s a = Some tasks \<and> arrays s (fresh s) = None \<longrightarrow>
          (\<exists>s' r. prioritizeTasks_ref s a mode = Some (s', r)
             \<and> arrays s' r = Some (prioritizeTasks tasks mode)
             \<and> arrays s' a = Some tasks
             \<and> (\<forall>b. b \<noteq> r \<longrightarrow> arrays s' b = arrays s b))"
  proof (intro allI impI)
    fix s :: store and a
    assume h: "arrays s a = Some tasks \<and> arrays s (fresh s) = None"
    then have ne: "a \<noteq> fresh s"
      by auto
    from h prioritizeTasks_ref_frame [of s a tasks mode]
    obtain s' where s': "prioritizeTasks_ref s a mode = Some (s', fresh s)"
      "arrays s' (fresh s) = Some (prioritizeTasks tasks mode)"
      "\<forall>b. b \<noteq> fresh s \<longrightarrow> arrays s' b = arrays s b"
      by blast
    then have "arrays s' a = Some tasks"
      using ne h by simp
    with s' show "\<exists>s' r. prioritizeTasks_ref s a mode = Some (s', r)
             \<and> arrays s' r = Some (prioritizeTasks tasks mode)
             \<and> arrays s' a = Some tasks
             \<and> (\<forall>b. b \<noteq> r \<longrightarrow> arrays s' b = arrays s b)"
      by blast
  qed
  from perm tab p d c f show ?thesis
    by blast
qed

theorem prioritizeTasks_sorts_by_mode_witness:
  "knownPriority (priority taskA) \<and> knownPriority (priority taskB)
   \<and> knownPriority (priority taskC)
   \<and> mset (prioritizeTasks [taskA, taskB, taskC] ''priority'') = mset [taskA, taskB, taskC]
   \<and> sorted_wrt weightNotBelow (prioritizeTasks [taskA, taskB, taskC] ''priority'')
   \<and> prioritizeTasks [taskA, taskB, taskC] ''priority'' = [taskA, taskC, taskB]
   \<and> sorted_wrt dueNotAfter (prioritizeTasks [taskA, taskB, taskC] ''dueDate'')
   \<and> prioritizeTasks [taskA, taskB, taskC] ''dueDate'' = [taskB, taskC, taskA]
   \<and> sorted_wrt createdNotBefore (prioritizeTasks [taskA, taskB, taskC] ''newest'')
   \<and> prioritizeTasks [taskA, taskB, taskC] ''newest'' = [taskB, taskA, taskC]
   \<and> (\<exists>s' r. prioritizeTasks_ref sampleStore 0 ''priority'' = Some (s', r)
         \<and> arrays s' r = Some [taskA, taskC, taskB]
         \<and> arrays s' 0 = Some [taskA, taskB, taskC])"
proof -
  have known: "knownPriority (priority taskA)" "knownPriority (priority taskB)"
    "knownPriority (priority taskC)"
    by (simp_all add: knownPriority_def taskA_def taskB_def taskC_def)
  have ev: "prioritizeTasks [taskA, taskB, taskC] ''priority'' = [taskA, taskC, taskB]"
    "prioritizeTasks [taskA, taskB, taskC] ''dueDate'' = [taskB, taskC, taskA]"
    "prioritizeTasks [taskA, taskB, taskC] ''newest'' = [taskB, taskA, taskC]"
    by (simp_all add: prioritizeTasks_def array_sort_def compareTasks_def weightNumber_def
        weights_def dueTime_def createdOrZero_def taskA_def taskB_def taskC_def)
  have st: "arrays sampleStore 0 = Some [taskA, taskB, taskC]"
    "arrays sampleStore (fresh sampleStore) = None"
    by (simp_all add: sampleStore_def)
  have hyp: "''priority'' = ''priority'' \<longrightarrow>
      (\<forall>t\<in>set [taskA, taskB, taskC]. knownPriority (priority t))"
    using known by simp
  have hypd: "''dueDate'' = ''priority'' \<longrightarrow>
      (\<forall>t\<in>set [taskA, taskB, taskC]. knownPriority (priority t))"
    and hypc: "''newest'' = ''priority'' \<longrightarrow>
      (\<forall>t\<in>set [taskA, taskB, taskC]. knownPriority (priority t))"
    and modes: "''newest'' \<noteq> ''priority'' \<and> ''newest'' \<noteq> ''dueDate''"
    by simp_all
  note p = prioritizeTasks_sorts_by_mode [OF hyp]
  note d = prioritizeTasks_sorts_by_mode [OF hypd]
  note c = prioritizeTasks_sorts_by_mode [OF hypc]
  have p1: "mset (prioritizeTasks [taskA, taskB, taskC] ''priority'') = mset [taskA, taskB, taskC]"
    and p2: "sorted_wrt weightNotBelow (prioritizeTasks [taskA, taskB, taskC] ''priority'')"
    and p3: "\<exists>s' r. prioritizeTasks_ref sampleStore 0 ''priority'' = Some (s', r)
         \<and> arrays s' r = Some (prioritizeTasks [taskA, taskB, taskC] ''priority'')
         \<and> arrays s' 0 = Some [taskA, taskB, taskC]"
    using p st by blast+
  have d1: "sorted_wrt dueNotAfter (prioritizeTasks [taskA, taskB, taskC] ''dueDate'')"
    using d by blast
  have c1: "sorted_wrt createdNotBefore (prioritizeTasks [taskA, taskB, taskC] ''newest'')"
    using c modes by blast
  have frame: "\<exists>s' r. prioritizeTasks_ref sampleStore 0 ''priority'' = Some (s', r)
         \<and> arrays s' r = Some [taskA, taskC, taskB]
         \<and> arrays s' 0 = Some [taskA, taskB, taskC]"
    using p3 by (simp only: ev)
  from known p1 p2 ev d1 c1 frame show ?thesis
    by blast
qed

lemma sameSortKey_priority:
  assumes "knownPriority (priority t)"
  shows "sameSortKey ''priority'' a t \<longleftrightarrow> priorityKey t = priorityKey a"
proof -
  obtain w where w: "weights (priority t) = Some w" "1 \<le> w"
    using assms weights_known_pos by blast
  show ?thesis
  proof (cases "weights (priority a)")
    case None
    then show ?thesis
      using w by (simp add: sameSortKey_def priorityKey_def)
  next
    case (Some wa)
    then show ?thesis
      using w by (simp add: sameSortKey_def priorityKey_def)
  qed
qed

lemma sameSortKey_dueDate:
  "sameSortKey ''dueDate'' a t \<longleftrightarrow> dueKey t = dueKey a"
  by (cases "dueDate a"; cases "dueDate t") (simp_all add: sameSortKey_def dueKey_def)

lemma sameSortKey_createdAt:
  assumes "mode \<noteq> ''priority''" "mode \<noteq> ''dueDate''"
  shows "sameSortKey mode a t \<longleftrightarrow> createdKey t = createdKey a"
  using assms by (simp add: sameSortKey_def createdKey_def createdOrZero_def)

lemma stable_priority:
  assumes known: "\<forall>t\<in>set tasks. knownPriority (priority t)"
  shows "filter (sameSortKey ''priority'' a) (prioritizeTasks tasks ''priority'')
           = filter (sameSortKey ''priority'' a) tasks"
proof -
  have "filter (sameSortKey ''priority'' a) (sort_key priorityKey tasks)
          = filter (\<lambda>t. priorityKey t = priorityKey a) (sort_key priorityKey tasks)"
    by (rule filter_cong) (simp_all add: sameSortKey_priority known)
  also have "\<dots> = filter (\<lambda>t. priorityKey t = priorityKey a) tasks"
    by (rule sort_key_stable)
  also have "\<dots> = filter (sameSortKey ''priority'' a) tasks"
    by (rule filter_cong) (simp_all add: sameSortKey_priority known)
  finally show ?thesis
    by (simp only: prioritize_priority [OF known])
qed

lemma stable_dueDate:
  "filter (sameSortKey ''dueDate'' a) (prioritizeTasks tasks ''dueDate'')
     = filter (sameSortKey ''dueDate'' a) tasks"
proof -
  have same: "sameSortKey ''dueDate'' a = (\<lambda>t. dueKey t = dueKey a)"
    by (rule ext) (rule sameSortKey_dueDate)
  show ?thesis
    unfolding same prioritize_dueDate by (rule sort_key_stable)
qed

lemma stable_createdAt:
  assumes "mode \<noteq> ''priority''" "mode \<noteq> ''dueDate''"
  shows "filter (sameSortKey mode a) (prioritizeTasks tasks mode)
           = filter (sameSortKey mode a) tasks"
proof -
  have same: "sameSortKey mode a = (\<lambda>t. createdKey t = createdKey a)"
    by (rule ext) (rule sameSortKey_createdAt [OF assms])
  show ?thesis
    unfolding same prioritize_createdAt [OF assms] by (rule sort_key_stable)
qed

text \<open>
  C5. The sort is stable in every mode: for any task \<open>a\<close>, the tasks with the same key as
  \<open>a\<close> come out in the order in which they went in. (Under \<open>priority\<close>, for tasks whose
  priorities are in the table.)
\<close>

theorem prioritizeTasks_stable:
  assumes "mode = ''priority'' \<longrightarrow> (\<forall>t\<in>set tasks. knownPriority (priority t))"
  shows "filter (sameSortKey mode a) (prioritizeTasks tasks mode)
           = filter (sameSortKey mode a) tasks"
proof -
  consider (p) "mode = ''priority''" | (d) "mode = ''dueDate''"
    | (c) "mode \<noteq> ''priority''" "mode \<noteq> ''dueDate''"
    by blast
  then show ?thesis
  proof cases
    case p
    with assms have "\<forall>t\<in>set tasks. knownPriority (priority t)"
      by blast
    then show ?thesis
      unfolding p by (rule stable_priority)
  next
    case d
    show ?thesis
      unfolding d by (rule stable_dueDate)
  next
    case c
    then show ?thesis
      by (rule stable_createdAt)
  qed
qed

theorem prioritizeTasks_stable_witness:
  "knownPriority (priority taskB) \<and> knownPriority (priority kickoff)
   \<and> knownPriority (priority taskC) \<and> knownPriority (priority taskA)
   \<and> sameSortKey ''priority'' kickoff taskA
   \<and> filter (sameSortKey ''priority'' kickoff)
        (prioritizeTasks [taskB, kickoff, taskC, taskA] ''priority'') = [kickoff, taskA]
   \<and> prioritizeTasks [taskB, kickoff, taskC, taskA] ''priority''
        = [kickoff, taskA, taskC, taskB]"
proof -
  have known: "knownPriority (priority taskA)" "knownPriority (priority taskB)"
    "knownPriority (priority taskC)" "knownPriority (priority kickoff)"
    by (simp_all add: knownPriority_def taskA_def taskB_def taskC_def kickoff_def)
  have hyp: "''priority'' = ''priority'' \<longrightarrow>
      (\<forall>t\<in>set [taskB, kickoff, taskC, taskA]. knownPriority (priority t))"
    using known by simp
  have inp: "filter (sameSortKey ''priority'' kickoff) [taskB, kickoff, taskC, taskA]
               = [kickoff, taskA]"
    "sameSortKey ''priority'' kickoff taskA"
    by (simp_all add: sameSortKey_def weights_def taskA_def taskB_def taskC_def kickoff_def)
  have ev: "prioritizeTasks [taskB, kickoff, taskC, taskA] ''priority''
        = [kickoff, taskA, taskC, taskB]"
    by (simp add: prioritizeTasks_def array_sort_def compareTasks_def weightNumber_def
        weights_def taskA_def taskB_def taskC_def kickoff_def)
  show ?thesis
    using prioritizeTasks_stable [OF hyp, of kickoff] known inp ev by simp
qed

subsection \<open>Filtering\<close>

text \<open>
  The helpers of the code against the tables: checked character by character over all
  256 characters.
\<close>

lemma fold_table: "list_all (\<lambda>c. toLowerCaseChar c = foldLetter c) Enum.enum"
  by code_simp

lemma space_table: "list_all (\<lambda>c. isWhiteSpace c = spaceChar c) Enum.enum"
  by code_simp

lemma toLowerCaseChar_foldLetter: "toLowerCaseChar c = foldLetter c"
proof -
  have "c \<in> set Enum.enum"
    using UNIV_enum [where 'a = char] by blast
  then show ?thesis
    using fold_table by (simp add: list_all_iff)
qed

lemma isWhiteSpace_spaceChar: "isWhiteSpace = spaceChar"
proof
  fix c :: char
  have "c \<in> set Enum.enum"
    using UNIV_enum [where 'a = char] by blast
  then show "isWhiteSpace c = spaceChar c"
    using space_table by (simp add: list_all_iff)
qed

text \<open>
  \<^verbatim>\<open>trim\<close> yields the one trimmed form; the template literal builds the combined text;
  \<^verbatim>\<open>includes\<close> on the lower-cased strings is occurrence ignoring case.
\<close>

lemma toLowerCase_fold: "toLowerCase s = map foldLetter s"
  by (simp add: toLowerCase_def toLowerCaseChar_foldLetter)

lemma trim_isTrimOf: "isTrimOf (trim s) s"
proof -
  define pre where "pre = takeWhile spaceChar s"
  define rest where "rest = dropWhile spaceChar s"
  define post where "post = rev (takeWhile spaceChar (rev rest))"
  define core where "core = rev (dropWhile spaceChar (rev rest))"
  have s: "s = pre @ rest"
    by (simp add: pre_def rest_def)
  have rest: "rest = core @ post"
    unfolding core_def post_def
    by (metis rev_append rev_rev_ident takeWhile_dropWhile_id)
  have tr: "trim s = core"
    by (simp add: trim_def core_def rest_def isWhiteSpace_spaceChar)
  have pre: "list_all spaceChar pre"
    by (auto simp: pre_def list_all_iff dest: set_takeWhileD)
  have post: "list_all spaceChar post"
    by (auto simp: post_def list_all_iff dest: set_takeWhileD)
  have ends: "\<not> (spaceChar (hd core) \<or> spaceChar (last core))" if ne: "core \<noteq> []"
  proof -
    have d: "dropWhile spaceChar (rev rest) \<noteq> []"
      using ne by (simp add: core_def)
    then have "\<not> spaceChar (hd (dropWhile spaceChar (rev rest)))"
      by (rule hd_dropWhile)
    then have l: "\<not> spaceChar (last core)"
      using d by (simp add: core_def last_rev)
    have "rest \<noteq> []"
      using ne rest by simp
    then have "\<not> spaceChar (hd rest)"
      unfolding rest_def by (rule hd_dropWhile)
    moreover have "hd rest = hd core"
      using ne rest by simp
    ultimately show ?thesis
      using l by simp
  qed
  have mem: "pre \<in> set (prefixes s)" "post \<in> set (suffixes s)"
    using s rest by (auto simp: prefix_def suffix_def)
  have body: "s = pre @ core @ post \<and> list_all spaceChar pre \<and> list_all spaceChar post
        \<and> (core = [] \<or> \<not> (spaceChar (hd core) \<or> spaceChar (last core)))"
    using s rest pre post ends by blast
  show ?thesis
    unfolding isTrimOf_def tr using mem body by blast
qed

lemma isTrimOf_unique:
  assumes "isTrimOf core s"
  shows "core = trim s"
proof -
  from assms obtain pre post where s: "s = pre @ core @ post"
    and pre: "\<forall>c\<in>set pre. spaceChar c" and post: "\<forall>c\<in>set post. spaceChar c"
    and ends: "core = [] \<or> \<not> (spaceChar (hd core) \<or> spaceChar (last core))"
    by (auto simp: isTrimOf_def list_all_iff)
  show ?thesis
  proof (cases "core = []")
    case True
    then have "\<forall>c\<in>set s. spaceChar c"
      using s pre post by auto
    then have d: "dropWhile spaceChar s = []"
      by (simp add: dropWhile_eq_Nil_conv)
    have "trim s = []"
      unfolding trim_def isWhiteSpace_spaceChar d by simp
    then show ?thesis
      using True by simp
  next
    case False
    then obtain h tl where core: "core = h # tl"
      by (cases core) auto
    have nh: "\<not> spaceChar h" and nl: "\<not> spaceChar (last core)"
      using ends False core by auto
    have "dropWhile spaceChar s = dropWhile spaceChar (core @ post)"
      unfolding s using pre by simp
    also have "\<dots> = core @ post"
      using nh core by simp
    finally have d1: "dropWhile spaceChar s = core @ post" .
    obtain l ini where rc: "rev core = l # ini" and ll: "l = last core"
      using False by (cases "rev core") (auto simp: last_rev)
    have "dropWhile spaceChar (rev (core @ post)) = dropWhile spaceChar (rev post @ rev core)"
      by simp
    also have "\<dots> = dropWhile spaceChar (rev core)"
      by (rule dropWhile_append2) (simp add: post)
    also have "\<dots> = rev core"
      unfolding rc using ll nl by simp
    finally have "rev (dropWhile spaceChar (rev (core @ post))) = core"
      by simp
    then show ?thesis
      using d1 by (simp add: trim_def isWhiteSpace_spaceChar)
  qed
qed

lemma trim_sublist: "trim s \<in> set (sublists s)"
proof -
  have "isTrimOf (trim s) s"
    by (rule trim_isTrimOf)
  then have "sublist (trim s) s"
    by (auto simp: isTrimOf_def sublist_def)
  then show ?thesis
    by (simp add: set_sublists_eq)
qed

lemma join_spaced: "join '' '' ts = spaced ts"
  by (induction "'' ''" ts rule: join.induct) (simp_all add: spaced_def)

lemma searchText_combined: "searchText t = combinedText t"
  by (simp add: searchText_def combinedText_def join_spaced spaced_def split: option.splits)

lemma includes_str_sublist: "includes_str hay needle \<longleftrightarrow> sublist needle hay"
  by (induction hay) (simp_all add: sublist_Cons_right)

lemma sublist_map_iff:
  "sublist ys (map f xs) \<longleftrightarrow> (\<exists>mid. sublist mid xs \<and> map f mid = ys)"
proof
  assume "sublist ys (map f xs)"
  then show "\<exists>mid. sublist mid xs \<and> map f mid = ys"
    using sublist_map_rightE by blast
next
  assume "\<exists>mid. sublist mid xs \<and> map f mid = ys"
  then obtain mid ps ss where "xs = ps @ mid @ ss" "map f mid = ys"
    by (auto simp: sublist_def)
  then have "map f xs = map f ps @ ys @ map f ss"
    by simp
  then show "sublist ys (map f xs)"
    unfolding sublist_def by blast
qed

lemma includes_str_occurs:
  "includes_str (toLowerCase text) (toLowerCase core) \<longleftrightarrow> occursIgnoringCase core text"
  by (auto simp: includes_str_sublist toLowerCase_fold sublist_map_iff occursIgnoringCase_def
      sameIgnoringCase_def set_sublists_eq)

lemma matchesSearch_trim:
  "matchesSearch searchTerm t \<longleftrightarrow>
     trim searchTerm = [] \<or> occursIgnoringCase (trim searchTerm) (combinedText t)"
proof
  assume "matchesSearch searchTerm t"
  then obtain core where core: "isTrimOf core searchTerm"
    "core = [] \<or> occursIgnoringCase core (combinedText t)"
    by (auto simp: matchesSearch_def)
  from core(1) have "core = trim searchTerm"
    by (rule isTrimOf_unique)
  with core(2) show "trim searchTerm = [] \<or> occursIgnoringCase (trim searchTerm) (combinedText t)"
    by simp
next
  assume "trim searchTerm = [] \<or> occursIgnoringCase (trim searchTerm) (combinedText t)"
  then show "matchesSearch searchTerm t"
    unfolding matchesSearch_def using trim_sublist trim_isTrimOf by blast
qed

lemma searchStep_iff:
  "searchStep (toLowerCase (trim searchTerm)) t \<longleftrightarrow> matchesSearch searchTerm t"
proof -
  have "toLowerCase (trim searchTerm) = [] \<longleftrightarrow> trim searchTerm = []"
    by (simp add: toLowerCase_def)
  then show ?thesis
    by (simp add: searchStep_def includes_str_occurs searchText_combined matchesSearch_trim)
qed

lemma keepTask_iff:
  assumes "knownStatus (status t)"
  shows "keepTask criterion (toLowerCase (trim searchTerm)) t \<longleftrightarrow>
           matchesCriterion criterion t \<and> matchesSearch searchTerm t"
proof -
  have "status t \<noteq> ''high''"
    using assms by (auto simp: knownStatus_def STATUS_KEYS_def)
  moreover have "status t = criterion \<Longrightarrow> knownStatus criterion"
    using assms by simp
  ultimately show ?thesis
    unfolding keepTask_def matchesCriterion_def searchStep_iff by auto
qed

text \<open>
  C3. For ASCII text and tasks whose status is one of the four known values, a task is in
  the output of the filter exactly when it is in the input, matches the criterion (\<open>all\<close>;
  or \<open>high\<close> and the priority is high; or a status value equal to the task's status) and
  matches the search term (the trimmed term is empty or occurs, ignoring case, in title,
  description and space-joined tags put together with single spaces). The output is the
  input filtered by that rule, in the input's order.
\<close>

theorem filteredTasks_keeps_matching:
  assumes "\<forall>t\<in>set tasks. knownStatus (status t)"
    and "asciiString searchTerm" and "\<forall>t\<in>set tasks. asciiTask t"
  shows "filteredTasks tasks criterion searchTerm
           = filter (\<lambda>t. matchesCriterion criterion t \<and> matchesSearch searchTerm t) tasks
         \<and> (t \<in> set (filteredTasks tasks criterion searchTerm)
              \<longleftrightarrow> t \<in> set tasks \<and> matchesCriterion criterion t \<and> matchesSearch searchTerm t)"
proof -
  have "filteredTasks tasks criterion searchTerm
           = filter (\<lambda>t. matchesCriterion criterion t \<and> matchesSearch searchTerm t) tasks"
    unfolding filteredTasks_def Let_def
    by (rule filter_cong) (simp_all add: keepTask_iff assms(1))
  then show ?thesis
    by auto
qed

theorem filteredTasks_keeps_matching_witness:
  "knownStatus (status kickoff) \<and> knownStatus (status retro) \<and> knownStatus (status docs)
   \<and> asciiTask kickoff \<and> asciiTask retro \<and> asciiTask docs \<and> asciiString '' TEAM ''
   \<and> filteredTasks [kickoff, retro, docs] ''all'' '' TEAM '' = [kickoff]
   \<and> matchesSearch '' TEAM '' kickoff
   \<and> \<not> matchesSearch '' TEAM '' retro
   \<and> \<not> matchesSearch '' TEAM '' docs
   \<and> filteredTasks [kickoff, retro, docs] ''all'' ''kudos'' = [retro]
   \<and> filteredTasks [kickoff, retro, docs] ''all'' ''Q4 Finalize'' = [kickoff]
   \<and> filteredTasks [kickoff, retro, docs] ''all'' ''Q4Finalize'' = []
   \<and> filteredTasks [kickoff, retro, docs] ''all'' ''targets. planning team'' = [kickoff]
   \<and> filteredTasks [kickoff, retro, docs] ''high'' ''  PLAN '' = [kickoff]
   \<and> filteredTasks [kickoff, retro, docs] ''completed'' '''' = [docs]"
proof -
  have known: "knownStatus (status kickoff)" "knownStatus (status retro)"
    "knownStatus (status docs)"
    by (simp_all add: knownStatus_def STATUS_KEYS_def kickoff_def retro_def docs_def)
  then have hyp: "\<forall>t\<in>set [kickoff, retro, docs]. knownStatus (status t)"
    by simp
  have ascii: "asciiTask kickoff" "asciiTask retro" "asciiTask docs" "asciiString '' TEAM ''"
    by code_simp+
  then have hypa: "\<forall>t\<in>set [kickoff, retro, docs]. asciiTask t"
    by simp
  have ev: "filteredTasks [kickoff, retro, docs] ''all'' '' TEAM '' = [kickoff]"
    by code_simp
  have more: "filteredTasks [kickoff, retro, docs] ''all'' ''kudos'' = [retro]"
    "filteredTasks [kickoff, retro, docs] ''all'' ''Q4 Finalize'' = [kickoff]"
    "filteredTasks [kickoff, retro, docs] ''all'' ''Q4Finalize'' = []"
    "filteredTasks [kickoff, retro, docs] ''all'' ''targets. planning team'' = [kickoff]"
    "filteredTasks [kickoff, retro, docs] ''high'' ''  PLAN '' = [kickoff]"
    "filteredTasks [kickoff, retro, docs] ''completed'' '''' = [docs]"
    by code_simp+
  have ne: "retro \<noteq> kickoff" "docs \<noteq> kickoff"
    by (simp_all add: retro_def kickoff_def docs_def)
  have crit: "matchesCriterion ''all'' t" for t
    by (simp add: matchesCriterion_def)
  note gen = filteredTasks_keeps_matching [OF hyp ascii(4) hypa, of "''all''"]
  have k: "matchesSearch '' TEAM '' kickoff"
    using gen [of kickoff] ev by simp
  have r: "\<not> matchesSearch '' TEAM '' retro"
    using gen [of retro] ev ne crit by simp
  have d: "\<not> matchesSearch '' TEAM '' docs"
    using gen [of docs] ev ne crit by simp
  from known ascii ev more k r d show ?thesis
    by blast
qed

subsection \<open>Grouping\<close>

lemma groupStep_safe:
  assumes "safeStatus t"
  shows "groupStep acc t = Inr (acc(status t \<mapsto> bucketOf acc (status t) @ [t]))"
  using assms by (simp add: groupStep_def safeStatus_def bucketOf_def split: option.splits)

lemma no_status_no_bucket:
  assumes "s \<notin> status ` set ts"
  shows "filter (\<lambda>t. status t = s) ts = []"
  using assms by (auto simp: filter_empty_conv)

lemma groupStep_closed_form:
  "(if s \<in> status ` set ts
    then Some (bucketOf (acc(status t \<mapsto> bucketOf acc (status t) @ [t])) s
                 @ filter (\<lambda>u. status u = s) ts)
    else (acc(status t \<mapsto> bucketOf acc (status t) @ [t])) s)
   = (if s \<in> status ` set (t # ts)
      then Some (bucketOf acc s @ filter (\<lambda>u. status u = s) (t # ts))
      else acc s)"
proof (cases "s = status t")
  case same: True
  show ?thesis
  proof (cases "status t \<in> status ` set ts")
    case True
    then show ?thesis
      using same by (simp add: bucketOf_def)
  next
    case False
    then have "filter (\<lambda>u. status u = status t) ts = []"
      by (rule no_status_no_bucket)
    then show ?thesis
      using same False by (simp add: bucketOf_def)
  qed
next
  case False
  then show ?thesis
    by (auto simp: bucketOf_def)
qed

lemma reduceGroup_safe:
  assumes "\<forall>t\<in>set ts. safeStatus t"
  shows "reduceGroup ts acc =
           Inr (\<lambda>s. if s \<in> status ` set ts
                     then Some (bucketOf acc s @ filter (\<lambda>t. status t = s) ts)
                     else acc s)"
  using assms
proof (induction ts arbitrary: acc)
  case Nil
  then show ?case by simp
next
  case (Cons t ts)
  let ?acc' = "acc(status t \<mapsto> bucketOf acc (status t) @ [t])"
  have step: "groupStep acc t = Inr ?acc'"
    using Cons.prems by (simp add: groupStep_safe)
  have ih: "reduceGroup ts ?acc' =
           Inr (\<lambda>s. if s \<in> status ` set ts
                     then Some (bucketOf ?acc' s @ filter (\<lambda>t. status t = s) ts)
                     else ?acc' s)"
    using Cons.prems by (intro Cons.IH) simp
  have "(\<lambda>s. if s \<in> status ` set ts
                     then Some (bucketOf ?acc' s @ filter (\<lambda>t. status t = s) ts)
                     else ?acc' s)
        = (\<lambda>s. if s \<in> status ` set (t # ts)
                     then Some (bucketOf acc s @ filter (\<lambda>t. status t = s) (t # ts))
                     else acc s)"
    by (rule ext) (rule groupStep_closed_form)
  with step ih show ?case
    by simp
qed

text \<open>
  C2, as amended. When no status names a property of \<^verbatim>\<open>Object.prototype\<close>, the grouping
  returns a mapping whose keys are exactly the statuses that occur in its input, known
  or not; the bucket of a status lists the tasks of that status in sorted order; and
  every task of the input is in the bucket of its own status. No task is dropped.
\<close>

theorem groupedTasks_buckets:
  assumes "\<forall>t\<in>set filtered. safeStatus t"
  shows "\<exists>m. groupedTasks filtered sortMode = Inr m
           \<and> dom m = status ` set filtered
           \<and> (\<forall>s\<in>dom m. m s = Some (filter (\<lambda>t. status t = s) (prioritizeTasks filtered sortMode)))
           \<and> (\<forall>t\<in>set filtered. \<exists>bucket. m (status t) = Some bucket \<and> t \<in> set bucket)"
proof -
  let ?sorted = "prioritizeTasks filtered sortMode"
  let ?m = "\<lambda>s. if s \<in> status ` set ?sorted
                     then Some (bucketOf Map.empty s @ filter (\<lambda>t. status t = s) ?sorted)
                     else None"
  have "mset ?sorted = mset filtered"
    by (simp add: prioritizeTasks_def mset_array_sort)
  then have sets: "set ?sorted = set filtered"
    by (rule mset_eq_setD)
  then have "\<forall>t\<in>set ?sorted. safeStatus t"
    using assms by simp
  then have "reduceGroup ?sorted Map.empty = Inr ?m"
    by (simp add: reduceGroup_safe)
  then have g: "groupedTasks filtered sortMode = Inr ?m"
    by (simp add: groupedTasks_def)
  have d: "dom ?m = status ` set filtered"
    using sets by (auto simp: dom_def)
  have b: "\<forall>s\<in>dom ?m. ?m s = Some (filter (\<lambda>t. status t = s) ?sorted)"
    by (auto simp: dom_def bucketOf_def)
  have k: "\<forall>t\<in>set filtered. \<exists>bucket. ?m (status t) = Some bucket \<and> t \<in> set bucket"
    using sets by (auto simp: bucketOf_def)
  from g d b k show ?thesis
    by blast
qed

text \<open>
  C2, as stated, fails: a single task with the status \<open>archived\<close>, which is none of the four
  known statuses, is returned in a bucket under the key \<open>archived\<close>.
\<close>

theorem groupedTasks_drops_unknown_counterexample:
  "groupedTasks [archived] ''priority'' = Inr [''archived'' \<mapsto> [archived]]
   \<and> status archived = ''archived'' \<and> ''archived'' \<notin> set STATUS_KEYS"
  by (simp add: groupedTasks_def prioritizeTasks_def array_sort_def groupStep_def
      OBJECT_PROTOTYPE_KEYS_def STATUS_KEYS_def archived_def)

theorem groupedTasks_buckets_witness:
  "safeStatus kickoff \<and> safeStatus archived \<and> safeStatus docs
   \<and> (\<exists>m. groupedTasks [kickoff, archived, docs] ''priority'' = Inr m
         \<and> dom m = {''today'', ''archived'', ''completed''}
         \<and> m ''archived'' = Some [archived])"
proof -
  have safe: "safeStatus kickoff" "safeStatus archived" "safeStatus docs"
    by (simp_all add: safeStatus_def OBJECT_PROTOTYPE_KEYS_def kickoff_def archived_def docs_def)
  then have hyp: "\<forall>t\<in>set [kickoff, archived, docs]. safeStatus t"
    by simp
  have st: "status kickoff = ''today''" "status archived = ''archived''"
    "status docs = ''completed''"
    by (simp_all add: kickoff_def archived_def docs_def)
  have ev: "prioritizeTasks [kickoff, archived, docs] ''priority'' = [kickoff, archived, docs]"
    by (simp add: prioritizeTasks_def array_sort_def compareTasks_def weightNumber_def
        weights_def kickoff_def archived_def docs_def)
  obtain m where m: "groupedTasks [kickoff, archived, docs] ''priority'' = Inr m"
    "dom m = status ` set [kickoff, archived, docs]"
    "\<forall>s\<in>dom m. m s = Some (filter (\<lambda>t. status t = s)
        (prioritizeTasks [kickoff, archived, docs] ''priority''))"
    using groupedTasks_buckets [OF hyp, of "''priority''"] by blast
  have d: "dom m = {''today'', ''archived'', ''completed''}"
    using m(2) st by simp
  then have "''archived'' \<in> dom m"
    by simp
  with m(3) have "m ''archived'' = Some (filter (\<lambda>t. status t = ''archived'')
        (prioritizeTasks [kickoff, archived, docs] ''priority''))"
    by blast
  then have "m ''archived'' = Some [archived]"
    using st by (simp add: ev)
  with safe m(1) d show ?thesis
    by blast
qed

text \<open>A status that names an inherited property makes the reduction throw.\<close>

lemma groupedTasks_inherited_key:
  "groupedTasks [archived\<lparr>status := ''constructor''\<rparr>] ''priority'' = Inl TypeError"
  by (simp add: groupedTasks_def prioritizeTasks_def array_sort_def groupStep_def
      OBJECT_PROTOTYPE_KEYS_def archived_def)

subsection \<open>Metrics\<close>

text \<open>
  When does the computation return, and what does it return.
\<close>

lemma completionDay_dated:
  assumes "completionInstant t = Some i" "completedAt t \<noteq> Some 0"
  shows "completionDay off t = Inr (startOfDay off i)"
  using assms
  by (auto simp: completionDay_def fallbackDay_def completionInstant_def split: option.splits)

lemma completedDays_dated:
  assumes "\<forall>t\<in>set ts. completionInstant t \<noteq> None \<and> completedAt t \<noteq> Some 0"
  shows "completedDays off ts =
           Inr (List.map_filter (\<lambda>t. map_option (startOfDay off) (completionInstant t)) ts)"
  using assms
proof (induction ts)
  case Nil
  then show ?case by (simp add: List.map_filter_simps)
next
  case (Cons t ts)
  then obtain i where i: "completionInstant t = Some i" "completedAt t \<noteq> Some 0"
    by auto
  have "completionDay off t = Inr (startOfDay off i)"
    using i by (rule completionDay_dated)
  moreover have "completedDays off ts =
           Inr (List.map_filter (\<lambda>t. map_option (startOfDay off) (completionInstant t)) ts)"
    using Cons by simp
  ultimately show ?case
    using i by (simp add: List.map_filter_simps)
qed

lemma completionDay_Inr_iff:
  "(\<exists>d. completionDay off t = Inr d)
     \<longleftrightarrow> \<not> ((completedAt t = None \<or> completedAt t = Some 0)
            \<and> dueDate t = None \<and> createdAt t = None)"
  by (auto simp: completionDay_def fallbackDay_def split: option.splits)

lemma completedDays_Inr_iff:
  "(\<exists>ds. completedDays off ts = Inr ds) \<longleftrightarrow> (\<forall>t\<in>set ts. \<exists>d. completionDay off t = Inr d)"
proof (induction ts)
  case Nil
  then show ?case by simp
next
  case (Cons t ts)
  show ?case
  proof (cases "completionDay off t")
    case (Inl e)
    then show ?thesis by auto
  next
    case day: (Inr d)
    show ?thesis
    proof (cases "completedDays off ts")
      case (Inl e)
      then show ?thesis using day Cons by auto
    next
      case (Inr ds)
      then show ?thesis using day Cons by auto
    qed
  qed
qed

lemma calculateStreak_returns:
  "(\<exists>n. calculateStreak off now (filter (\<lambda>t. status t = ''completed'') tasks) = Inr n)
     \<longleftrightarrow> (\<forall>t\<in>set tasks. \<not> undated t)"
proof -
  let ?done = "filter (\<lambda>t. status t = ''completed'') tasks"
  have "(\<exists>n. calculateStreak off now ?done = Inr n) \<longleftrightarrow> (\<exists>ds. completedDays off ?done = Inr ds)"
    by (cases "completedDays off ?done"; cases ?done)
       (simp_all add: calculateStreak_def Let_def)
  also have "\<dots> \<longleftrightarrow> (\<forall>t\<in>set ?done. \<exists>d. completionDay off t = Inr d)"
    by (rule completedDays_Inr_iff)
  also have "\<dots> \<longleftrightarrow> (\<forall>t\<in>set tasks. \<not> undated t)"
    by (auto simp: completionDay_Inr_iff undated_def)
  finally show ?thesis .
qed

lemma calculateMetrics_unfold:
  "calculateMetrics off now tasks =
     (case calculateStreak off now (filter (\<lambda>t. status t = ''completed'') tasks) of
        Inl e \<Rightarrow> Inl e
      | Inr n \<Rightarrow>
          Inr \<lparr>completionRate =
                 of_nat (length (filter (\<lambda>t. status t = ''completed'') tasks))
                   / of_nat (max 1 (length tasks)),
               highPriority =
                 length (filter (\<lambda>t. priority t = ''high'')
                   (filter (\<lambda>t. status t \<noteq> ''completed'') tasks)),
               dueSoon =
                 length (filter (isDueSoon now)
                   (filter (\<lambda>t. status t \<noteq> ''completed'') tasks)),
               activeCount = length (filter (\<lambda>t. status t \<noteq> ''completed'') tasks),
               streak = n,
               momentumComment =
                 (if (of_nat (length (filter (\<lambda>t. status t = ''completed'') tasks)) :: rat)
                       / of_nat (max 1 (length tasks)) \<ge> 0.8 then MomentumHigh
                  else if (of_nat (length (filter (\<lambda>t. status t = ''completed'') tasks)) :: rat)
                       / of_nat (max 1 (length tasks)) \<ge> 0.5 then SolidPace
                  else PlotNextMove),
               byStatus =
                 map (\<lambda>s. \<lparr>shareStatus = s,
                            shareCount = length (filter (\<lambda>t. status t = s) tasks),
                            sharePercentage =
                              mathRound ((of_nat (length (filter (\<lambda>t. status t = s) tasks))
                                           / of_nat (max 1 (length tasks))) * 100)\<rparr>)
                     STATUS_KEYS,
               focusArea =
                 determineFocusArea
                   (of_nat (length (filter (\<lambda>t. status t = ''completed'') tasks))
                      / of_nat (max 1 (length tasks)))
                   (length (filter (\<lambda>t. status t \<noteq> ''completed'') tasks))
                   (length (filter (isDueSoon now)
                      (filter (\<lambda>t. status t \<noteq> ''completed'') tasks)))\<rparr>)"
proof -
  have total: "total_tasks tasks = max 1 (length tasks)"
    by (cases tasks) (simp_all add: total_tasks_def)
  have nz: "(max 1 (length tasks) = 0) = False"
    by simp
  show ?thesis
    unfolding calculateMetrics_def Let_def total
    by (simp only: nz if_False)
qed

lemma calculateMetrics_returns:
  "(\<exists>m. calculateMetrics off now tasks = Inr m) \<longleftrightarrow> (\<forall>t\<in>set tasks. \<not> undated t)"
proof -
  have "(\<exists>m. calculateMetrics off now tasks = Inr m)
          \<longleftrightarrow> (\<exists>n. calculateStreak off now (filter (\<lambda>t. status t = ''completed'') tasks) = Inr n)"
    by (cases "calculateStreak off now (filter (\<lambda>t. status t = ''completed'') tasks)")
       (simp_all add: calculateMetrics_unfold)
  then show ?thesis
    by (simp add: calculateStreak_returns)
qed

lemma calculateMetrics_dueSoon:
  assumes "calculateMetrics off now tasks = Inr m"
  shows "dueSoon m = length (filter (isDueSoon now) (filter (\<lambda>t. status t \<noteq> ''completed'') tasks))"
  using assms by (auto simp: calculateMetrics_unfold split: sum.splits)

text \<open>
  The loop counts the unbroken run of days that starts today, up to ten.
\<close>

lemma streakLoop_inv:
  assumes "index \<le> 10"
  shows "\<exists>d. streakLoop days today index k = k + d
    \<and> index + d \<le> 10
    \<and> (\<forall>i. index \<le> i \<and> i < index + d \<longrightarrow> daysBefore today i \<in> days)
    \<and> (index + d < 10 \<longrightarrow> daysBefore today (index + d) \<notin> days)"
  using assms
proof (induction days today index k rule: streakLoop.induct)
  case (1 days today index k)
  show ?case
  proof (cases "index < 10 \<and> daysBefore today index \<in> days")
    case True
    then have unf: "streakLoop days today index k
             = streakLoop days today (index + 1) (k + 1)"
      by (subst streakLoop.simps) simp
    have "\<exists>d. streakLoop days today (index + 1) (k + 1) = k + 1 + d
      \<and> index + 1 + d \<le> 10
      \<and> (\<forall>i. index + 1 \<le> i \<and> i < index + 1 + d \<longrightarrow> daysBefore today i \<in> days)
      \<and> (index + 1 + d < 10 \<longrightarrow> daysBefore today (index + 1 + d) \<notin> days)"
      using True by (intro "1.IH") simp_all
    then obtain d where d: "streakLoop days today (index + 1) (k + 1) = k + 1 + d"
      "index + 1 + d \<le> 10"
      "\<forall>i. index + 1 \<le> i \<and> i < index + 1 + d \<longrightarrow> daysBefore today i \<in> days"
      "index + 1 + d < 10 \<longrightarrow> daysBefore today (index + 1 + d) \<notin> days"
      by blast
    have all: "\<forall>i. index \<le> i \<and> i < index + (d + 1) \<longrightarrow> daysBefore today i \<in> days"
    proof (intro allI impI)
      fix i
      assume "index \<le> i \<and> i < index + (d + 1)"
      then consider "i = index" | "index + 1 \<le> i \<and> i < index + 1 + d"
        by linarith
      then show "daysBefore today i \<in> days"
        using True d(3) by cases auto
    qed
    have "streakLoop days today index k = k + (d + 1)"
      using unf d(1) by simp
    moreover have "index + (d + 1) \<le> 10"
      using d(2) by simp
    moreover have "index + (d + 1) < 10 \<longrightarrow> daysBefore today (index + (d + 1)) \<notin> days"
      using d(4) by (simp add: add.assoc add.commute)
    ultimately show ?thesis
      using all by blast
  next
    case False
    then have unf: "streakLoop days today index k = k"
      by (subst streakLoop.simps) auto
    have "streakLoop days today index k = k + 0 \<and> index + 0 \<le> 10
      \<and> (\<forall>i. index \<le> i \<and> i < index + 0 \<longrightarrow> daysBefore today i \<in> days)
      \<and> (index + 0 < 10 \<longrightarrow> daysBefore today (index + 0) \<notin> days)"
      using unf False "1.prems" by auto
    then show ?thesis
      by blast
  qed
qed

lemma streakLoop_chain:
  "streakLoop days today 0 0 \<le> 10
   \<and> (\<forall>i < streakLoop days today 0 0. daysBefore today i \<in> days)
   \<and> (streakLoop days today 0 0 < 10
        \<longrightarrow> daysBefore today (streakLoop days today 0 0) \<notin> days)"
  using streakLoop_inv [where index = 0 and k = 0 and days = days and today = today] by auto

lemma calculateStreak_dated:
  assumes "\<forall>t\<in>set tasks. \<not> undated t \<and> \<not> zeroStamped t"
  shows "calculateStreak off now (filter (\<lambda>t. status t = ''completed'') tasks)
           = Inr (streakLoop (set (completedDayList off tasks)) (startOfDay off now) 0 0)"
proof -
  let ?done = "filter (\<lambda>t. status t = ''completed'') tasks"
  have "\<forall>t\<in>set ?done. completionInstant t \<noteq> None \<and> completedAt t \<noteq> Some 0"
    using assms
    by (auto simp: undated_def zeroStamped_def completionInstant_def split: option.splits)
  then have days: "completedDays off ?done = Inr (completedDayList off tasks)"
    unfolding completedDayList_def by (rule completedDays_dated)
  show ?thesis
  proof (cases "?done = []")
    case True
    then have "completedDayList off tasks = []"
      by (simp add: completedDayList_def List.map_filter_simps)
    then have "streakLoop (set (completedDayList off tasks)) (startOfDay off now) 0 0 = 0"
      by (subst streakLoop.simps) simp
    then show ?thesis
      using True by (simp add: calculateStreak_def)
  next
    case False
    then show ?thesis
      using days by (simp add: calculateStreak_def Let_def)
  qed
qed

text \<open>
  The window test on rationals is the window test on instants; a day has 24 hours.
\<close>

lemma msPerDay_value: "msPerDay = 86400000"
  by (simp add: msPerDay_def)

lemma isDueSoon_window: "isDueSoon now t \<longleftrightarrow> dueWithinWindow now t"
proof (cases "dueDate t")
  case None
  then show ?thesis
    by (simp add: isDueSoon_def dueWithinWindow_def)
next
  case (Some d)
  have lo: "(0 \<le> (of_int (d - now) :: rat) / (1000 * 60 * 60 * 24)) \<longleftrightarrow> now \<le> d"
    by (simp add: zero_le_divide_iff)
  have "((of_int (d - now) :: rat) / (1000 * 60 * 60 * 24) \<le> 3)
          \<longleftrightarrow> (of_int (d - now) :: rat) \<le> of_int 259200000"
    by (simp add: divide_le_eq)
  also have "\<dots> \<longleftrightarrow> d - now \<le> 259200000"
    by (rule of_int_le_iff)
  finally have hi: "((of_int (d - now) :: rat) / (1000 * 60 * 60 * 24) \<le> 3)
          \<longleftrightarrow> d \<le> now + 3 * msPerDay"
    by (simp add: msPerDay_value) linarith
  show ?thesis
    using Some lo hi by (simp add: isDueSoon_def dueWithinWindow_def Let_def)
qed

lemma startOfDay_bounds:
  "startOfDay off t \<le> t" "t < startOfDay off t + msPerDay"
proof -
  have "0 \<le> (t + off) mod msPerDay" "(t + off) mod msPerDay < msPerDay"
    by (simp_all add: msPerDay_value)
  then show "startOfDay off t \<le> t" "t < startOfDay off t + msPerDay"
    by (simp_all add: startOfDay_def)
qed

text \<open>
  C1, as amended. Whenever the metrics are computed (they are unless a completed task is
  undated), \<open>dueSoon\<close> is the number of tasks that are not completed and whose due instant
  lies in the inclusive window from \<open>now\<close> to three days after \<open>now\<close>; a task without a due
  date never counts. A task due on today's calendar date passes the test exactly when its
  due instant is not earlier than \<open>now\<close>; a task due on yesterday's date never passes.
\<close>

theorem dueSoon_counts_instant_window:
  "(\<forall>m. calculateMetrics off now tasks = Inr m \<longrightarrow>
        dueSoon m = length (filter (\<lambda>t. status t \<noteq> ''completed'' \<and> dueWithinWindow now t) tasks))
   \<and> ((\<forall>t\<in>set tasks. \<not> undated t) \<longrightarrow> (\<exists>m. calculateMetrics off now tasks = Inr m))
   \<and> (\<forall>t d. dueDate t = Some d \<and> startOfDay off d = startOfDay off now
          \<longrightarrow> (isDueSoon now t \<longleftrightarrow> now \<le> d))
   \<and> (\<forall>t d. dueDate t = Some d \<and> startOfDay off d = daysBefore (startOfDay off now) 1
          \<longrightarrow> \<not> isDueSoon now t)"
proof -
  have a: "\<forall>m. calculateMetrics off now tasks = Inr m \<longrightarrow>
        dueSoon m = length (filter (\<lambda>t. status t \<noteq> ''completed'' \<and> dueWithinWindow now t) tasks)"
    by (simp add: calculateMetrics_dueSoon isDueSoon_window conj_commute)
  have b: "(\<forall>t\<in>set tasks. \<not> undated t) \<longrightarrow> (\<exists>m. calculateMetrics off now tasks = Inr m)"
    by (simp add: calculateMetrics_returns)
  have c: "isDueSoon now t \<longleftrightarrow> now \<le> d"
    if "dueDate t = Some d \<and> startOfDay off d = startOfDay off now" for t d
  proof -
    have "d < startOfDay off now + msPerDay" "startOfDay off now \<le> now"
      using that startOfDay_bounds [where off = off and t = d]
        startOfDay_bounds [where off = off and t = now] by simp_all
    then have "d \<le> now + 3 * msPerDay"
      by (simp add: msPerDay_value)
    then show ?thesis
      using that by (simp add: isDueSoon_window dueWithinWindow_def)
  qed
  have d: "\<not> isDueSoon now t"
    if "dueDate t = Some d \<and> startOfDay off d = daysBefore (startOfDay off now) 1" for t d
  proof -
    have "d < startOfDay off d + msPerDay" "startOfDay off now \<le> now"
      using startOfDay_bounds [where off = off and t = d]
        startOfDay_bounds [where off = off and t = now] by simp_all
    then have "d < now"
      using that by (simp add: daysBefore_def)
    then show ?thesis
      using that by (simp add: isDueSoon_window dueWithinWindow_def)
  qed
  from a b c d show ?thesis
    by blast
qed

theorem dueSoon_counts_instant_window_witness:
  "\<not> undated kickoff \<and> \<not> undated retro \<and> \<not> undated docs
   \<and> (\<exists>m. calculateMetrics 0 sampleNow [kickoff, retro, docs] = Inr m \<and> dueSoon m = 1)
   \<and> dueDate kickoff = Some 1728043200000
   \<and> startOfDay 0 1728043200000 = startOfDay 0 sampleNow
   \<and> \<not> isDueSoon sampleNow kickoff
   \<and> dueDate docs = Some 1727956800000
   \<and> startOfDay 0 1727956800000 = daysBefore (startOfDay 0 sampleNow) 1
   \<and> \<not> isDueSoon sampleNow docs"
proof -
  note gen = dueSoon_counts_instant_window [of 0 sampleNow "[kickoff, retro, docs]"]
  have dated: "\<not> undated kickoff" "\<not> undated retro" "\<not> undated docs"
    by (simp_all add: undated_def kickoff_def retro_def docs_def)
  then have "\<forall>t\<in>set [kickoff, retro, docs]. \<not> undated t"
    by simp
  with gen obtain m where m: "calculateMetrics 0 sampleNow [kickoff, retro, docs] = Inr m"
    by blast
  with gen have "dueSoon m = length (filter (\<lambda>t. status t \<noteq> ''completed''
      \<and> dueWithinWindow sampleNow t) [kickoff, retro, docs])"
    by blast
  also have "\<dots> = 1"
    by (simp add: dueWithinWindow_def sampleNow_def msPerDay_def kickoff_def retro_def docs_def)
  finally have count: "dueSoon m = 1" .
  have due: "dueDate kickoff = Some 1728043200000"
    "startOfDay 0 1728043200000 = startOfDay 0 sampleNow"
    "dueDate docs = Some 1727956800000"
    "startOfDay 0 1727956800000 = daysBefore (startOfDay 0 sampleNow) 1"
    "\<not> sampleNow \<le> 1728043200000"
    by (simp_all add: kickoff_def docs_def startOfDay_def daysBefore_def sampleNow_def
        msPerDay_def)
  have today: "\<not> isDueSoon sampleNow kickoff"
    using gen due(1,2,5) by blast
  have yesterday: "\<not> isDueSoon sampleNow docs"
    using gen due(3,4) by blast
  from dated m count due today yesterday show ?thesis
    by blast
qed

text \<open>
  C1, as stated, fails: at 15:00 the task \<open>kickoff\<close>, active and due at noon of the same
  calendar day, is not counted; \<open>dueSoon\<close> is \<open>0\<close>.
\<close>

theorem dueSoon_due_today_counterexample:
  "status kickoff \<noteq> ''completed'' \<and> dueDate kickoff = Some 1728043200000
   \<and> startOfDay 0 1728043200000 = startOfDay 0 sampleNow
   \<and> map_sum id dueSoon (calculateMetrics 0 sampleNow [kickoff]) = Inr 0"
  by code_simp

lemma ceil_two_fifths: "\<lceil>of_nat ac * (0.4 :: rat)\<rceil> = (2 * int ac + 4) div 5"
proof -
  have "of_nat ac * (0.4 :: rat) = of_int (2 * int ac) / of_int 5"
    by simp
  then have "\<lceil>of_nat ac * (0.4 :: rat)\<rceil> = - (- (2 * int ac) div 5)"
    by (simp only: ceiling_divide_eq_div)
  also have "\<dots> = (2 * int ac + 4) div 5"
    by presburger
  finally show ?thesis .
qed

text \<open>
  C6. The recommendation is chosen by the first rule that matches, in this order:
  completion rate at least \<open>0.8\<close>; \<open>dueSoon\<close> at least the larger of \<open>2\<close> and the ceiling of
  \<open>0.4 * activeCount\<close>; \<open>activeCount\<close> at least \<open>6\<close>; otherwise the habit message. The
  metrics report carries the recommendation of its own rate and counts. Ten tasks of
  which eight are completed have rate \<open>4/5\<close> and get the first recommendation.
\<close>

theorem focusArea_first_match:
  "determineFocusArea cr ac ds =
     (if 4 / 5 \<le> cr then ''Celebrate & optimize''
      else if max 2 ((2 * int ac + 4) div 5) \<le> int ds then ''Tackle upcoming deadlines''
      else if 6 \<le> ac then ''Streamline the workload''
      else ''Build the habit'')
   \<and> \<lceil>of_nat ac * (0.4 :: rat)\<rceil> = (2 * int ac + 4) div 5
   \<and> (\<forall>m. calculateMetrics off now tasks = Inr m \<longrightarrow>
          focusArea m = determineFocusArea (completionRate m) (activeCount m) (dueSoon m))
   \<and> (length tasks = 10 \<and> length (filter (\<lambda>t. status t = ''completed'') tasks) = 8
        \<and> (\<forall>t\<in>set tasks. \<not> undated t) \<longrightarrow>
          (\<exists>m. calculateMetrics off now tasks = Inr m \<and> completionRate m = 4 / 5
             \<and> focusArea m = ''Celebrate & optimize''))"
proof -
  have a: "determineFocusArea cr ac ds =
     (if 4 / 5 \<le> cr then ''Celebrate & optimize''
      else if max 2 ((2 * int ac + 4) div 5) \<le> int ds then ''Tackle upcoming deadlines''
      else if 6 \<le> ac then ''Streamline the workload''
      else ''Build the habit'')"
    unfolding determineFocusArea_def ceil_two_fifths by simp
  have b: "\<forall>m. calculateMetrics off now tasks = Inr m \<longrightarrow>
          focusArea m = determineFocusArea (completionRate m) (activeCount m) (dueSoon m)"
    by (auto simp: calculateMetrics_unfold split: sum.splits)
  have c: "\<exists>m. calculateMetrics off now tasks = Inr m \<and> completionRate m = 4 / 5
             \<and> focusArea m = ''Celebrate & optimize''"
    if h: "length tasks = 10 \<and> length (filter (\<lambda>t. status t = ''completed'') tasks) = 8
        \<and> (\<forall>t\<in>set tasks. \<not> undated t)"
  proof -
    obtain m where m: "calculateMetrics off now tasks = Inr m"
      using h calculateMetrics_returns by blast
    then have rate: "completionRate m = 4 / 5"
      using h by (auto simp: calculateMetrics_unfold split: sum.splits)
    then have "focusArea m = ''Celebrate & optimize''"
      using b m by (simp add: determineFocusArea_def)
    with m rate show ?thesis
      by blast
  qed
  from a b c ceil_two_fifths show ?thesis
    by blast
qed

theorem focusArea_first_match_witness:
  "length (replicate 8 docs @ [kickoff, retro]) = 10
   \<and> length (filter (\<lambda>t. status t = ''completed'') (replicate 8 docs @ [kickoff, retro])) = 8
   \<and> \<not> undated docs \<and> \<not> undated kickoff \<and> \<not> undated retro
   \<and> (\<exists>m. calculateMetrics 0 sampleNow (replicate 8 docs @ [kickoff, retro]) = Inr m
         \<and> completionRate m = 4 / 5 \<and> focusArea m = ''Celebrate & optimize'')
   \<and> determineFocusArea (1 / 2) 5 2 = ''Tackle upcoming deadlines''
   \<and> determineFocusArea (1 / 2) 6 2 = ''Streamline the workload''
   \<and> determineFocusArea (1 / 2) 5 1 = ''Build the habit''"
proof -
  have st: "status docs = ''completed''" "status kickoff \<noteq> ''completed''"
    "status retro \<noteq> ''completed''"
    by (simp_all add: docs_def kickoff_def retro_def)
  have len: "length (replicate 8 docs @ [kickoff, retro]) = 10"
    by simp
  have cnt: "length (filter (\<lambda>t. status t = ''completed'') (replicate 8 docs @ [kickoff, retro])) = 8"
    using st by simp
  have dated: "\<not> undated docs" "\<not> undated kickoff" "\<not> undated retro"
    by (simp_all add: undated_def kickoff_def retro_def docs_def)
  then have all: "\<forall>t\<in>set (replicate 8 docs @ [kickoff, retro]). \<not> undated t"
    by auto
  note gen = focusArea_first_match [where tasks = "replicate 8 docs @ [kickoff, retro]"]
  have m: "\<exists>m. calculateMetrics 0 sampleNow (replicate 8 docs @ [kickoff, retro]) = Inr m
         \<and> completionRate m = 4 / 5 \<and> focusArea m = ''Celebrate & optimize''"
    using gen [of _ _ _ 0 sampleNow] len cnt all by blast
  have t: "determineFocusArea (1 / 2) 5 2 = ''Tackle upcoming deadlines''"
    using gen [of "1 / 2" 5 2] by simp
  have s: "determineFocusArea (1 / 2) 6 2 = ''Streamline the workload''"
    using gen [of "1 / 2" 6 2] by simp
  have b: "determineFocusArea (1 / 2) 5 1 = ''Build the habit''"
    using gen [of "1 / 2" 5 1] by simp
  from len cnt dated m t s b show ?thesis
    by blast
qed

text \<open>
  C7. For a collection in which every completed task offers an instant (and no
  \<open>completedAt\<close> is the number \<open>0\<close>), the streak is the length of the unbroken run of days,
  today first and going back, that are days of completed tasks, cut off at ten: it is at
  most \<open>10\<close>, every day before it in the walk is a completed day, and, when it is below
  \<open>10\<close>, the day it stopped at is not. Without completed tasks it is \<open>0\<close>; with today and
  the two days before completed and the third day before not, it is \<open>3\<close>.
\<close>

theorem streak_counts_consecutive_days:
  assumes "\<forall>t\<in>set tasks. \<not> undated t \<and> \<not> zeroStamped t"
  shows "\<exists>m. calculateMetrics off now tasks = Inr m
     \<and> streak m \<le> 10
     \<and> (\<forall>i < streak m.
           daysBefore (startOfDay off now) i \<in> set (completedDayList off tasks))
     \<and> (streak m < 10 \<longrightarrow>
           daysBefore (startOfDay off now) (streak m) \<notin> set (completedDayList off tasks))
     \<and> (filter (\<lambda>t. status t = ''completed'') tasks = [] \<longrightarrow> streak m = 0)
     \<and> (daysBefore (startOfDay off now) 0 \<in> set (completedDayList off tasks)
          \<and> daysBefore (startOfDay off now) 1 \<in> set (completedDayList off tasks)
          \<and> daysBefore (startOfDay off now) 2 \<in> set (completedDayList off tasks)
          \<and> daysBefore (startOfDay off now) 3 \<notin> set (completedDayList off tasks)
          \<longrightarrow> streak m = 3)"
proof -
  define D where "D = set (completedDayList off tasks)"
  define today where "today = startOfDay off now"
  define n where "n = streakLoop D today 0 0"
  have st: "calculateStreak off now (filter (\<lambda>t. status t = ''completed'') tasks) = Inr n"
    unfolding n_def D_def today_def using assms by (rule calculateStreak_dated)
  then obtain m where m: "calculateMetrics off now tasks = Inr m" "streak m = n"
    by (simp add: calculateMetrics_unfold)
  have chain: "n \<le> 10" "\<forall>i < n. daysBefore today i \<in> D"
    "n < 10 \<longrightarrow> daysBefore today n \<notin> D"
    using streakLoop_chain [of D today] unfolding n_def by blast+
  have none: "n = 0" if "filter (\<lambda>t. status t = ''completed'') tasks = []"
  proof -
    have "D = {}"
      using that by (simp add: D_def completedDayList_def List.map_filter_simps)
    then show ?thesis
      using chain(2) by (cases n) auto
  qed
  have three: "n = 3"
    if h: "daysBefore today 0 \<in> D \<and> daysBefore today 1 \<in> D
           \<and> daysBefore today 2 \<in> D \<and> daysBefore today 3 \<notin> D"
  proof -
    have "\<not> n < 3"
    proof
      assume lt: "n < 3"
      then have "daysBefore today n \<notin> D"
        using chain(3) by simp
      moreover from lt consider "n = 0" | "n = 1" | "n = 2"
        by linarith
      then have "daysBefore today n \<in> D"
        using h by cases simp_all
      ultimately show False
        by simp
    qed
    moreover have "\<not> 3 < n"
      using chain(2) h by blast
    ultimately show ?thesis
      by simp
  qed
  from m chain none three show ?thesis
    unfolding D_def today_def by blast
qed

theorem streak_counts_consecutive_days_witness:
  "\<not> undated kickoff \<and> \<not> zeroStamped kickoff \<and> \<not> undated docs \<and> \<not> zeroStamped docs
   \<and> \<not> undated shipped \<and> \<not> zeroStamped shipped \<and> \<not> undated cleanup \<and> \<not> zeroStamped cleanup
   \<and> completedDayList 0 [kickoff, docs, shipped, cleanup]
        = [1728000000000, 1727913600000, 1727827200000]
   \<and> startOfDay 0 sampleNow = 1728000000000
   \<and> (\<exists>m. calculateMetrics 0 sampleNow [kickoff, docs, shipped, cleanup] = Inr m
         \<and> streak m = 3)"
proof -
  have dated: "\<not> undated kickoff" "\<not> zeroStamped kickoff" "\<not> undated docs"
    "\<not> zeroStamped docs" "\<not> undated shipped" "\<not> zeroStamped shipped"
    "\<not> undated cleanup" "\<not> zeroStamped cleanup"
    by (simp_all add: undated_def zeroStamped_def kickoff_def docs_def shipped_def cleanup_def)
  then have hyp: "\<forall>t\<in>set [kickoff, docs, shipped, cleanup]. \<not> undated t \<and> \<not> zeroStamped t"
    by simp
  have days: "completedDayList 0 [kickoff, docs, shipped, cleanup]
        = [1728000000000, 1727913600000, 1727827200000]"
    by code_simp
  have today: "startOfDay 0 sampleNow = 1728000000000"
    by (simp add: startOfDay_def sampleNow_def msPerDay_def)
  have prev: "daysBefore 1728000000000 0 = 1728000000000"
    "daysBefore 1728000000000 1 = 1727913600000"
    "daysBefore 1728000000000 2 = 1727827200000"
    "daysBefore 1728000000000 3 = 1727740800000"
    by (simp_all add: daysBefore_def msPerDay_def)
  have run: "daysBefore (startOfDay 0 sampleNow) 0
        \<in> set (completedDayList 0 [kickoff, docs, shipped, cleanup])
     \<and> daysBefore (startOfDay 0 sampleNow) 1
        \<in> set (completedDayList 0 [kickoff, docs, shipped, cleanup])
     \<and> daysBefore (startOfDay 0 sampleNow) 2
        \<in> set (completedDayList 0 [kickoff, docs, shipped, cleanup])
     \<and> daysBefore (startOfDay 0 sampleNow) 3
        \<notin> set (completedDayList 0 [kickoff, docs, shipped, cleanup])"
    unfolding days today prev by simp
  have "\<exists>m. calculateMetrics 0 sampleNow [kickoff, docs, shipped, cleanup] = Inr m
         \<and> streak m = 3"
    using streak_counts_consecutive_days [OF hyp, of 0 sampleNow] run by blast
  with dated days today show ?thesis
    by blast
qed

lemma mathRound_zero: "mathRound 0 = 0"
proof -
  have "\<lfloor>(1 :: rat) / 2\<rfloor> = 0"
    by (rule floor_unique) simp_all
  then show ?thesis
    by (simp add: mathRound_def)
qed

text \<open>
  C8. On the empty collection every number of the report is \<open>0\<close>. The divisor of the
  ratios is \<open>max 1 (length tasks)\<close>, never \<open>0\<close>, and the completion rate, the number of
  completed tasks over that divisor, lies between \<open>0\<close> and \<open>1\<close>.
\<close>

theorem calculateMetrics_empty_and_rate:
  "calculateMetrics off now [] =
     Inr \<lparr>completionRate = 0, highPriority = 0, dueSoon = 0, activeCount = 0, streak = 0,
          momentumComment = PlotNextMove,
          byStatus =
            [\<lparr>shareStatus = ''today'', shareCount = 0, sharePercentage = 0\<rparr>,
             \<lparr>shareStatus = ''upcoming'', shareCount = 0, sharePercentage = 0\<rparr>,
             \<lparr>shareStatus = ''backlog'', shareCount = 0, sharePercentage = 0\<rparr>,
             \<lparr>shareStatus = ''completed'', shareCount = 0, sharePercentage = 0\<rparr>],
          focusArea = ''Build the habit''\<rparr>
   \<and> total_tasks tasks = max 1 (length tasks) \<and> total_tasks tasks \<noteq> 0
   \<and> (\<forall>m. calculateMetrics off now tasks = Inr m \<longrightarrow>
          completionRate m
            = of_nat (length (filter (\<lambda>t. status t = ''completed'') tasks))
                / of_nat (total_tasks tasks)
          \<and> 0 \<le> completionRate m \<and> completionRate m \<le> 1)"
proof -
  have e: "calculateMetrics off now [] =
     Inr \<lparr>completionRate = 0, highPriority = 0, dueSoon = 0, activeCount = 0, streak = 0,
          momentumComment = PlotNextMove,
          byStatus =
            [\<lparr>shareStatus = ''today'', shareCount = 0, sharePercentage = 0\<rparr>,
             \<lparr>shareStatus = ''upcoming'', shareCount = 0, sharePercentage = 0\<rparr>,
             \<lparr>shareStatus = ''backlog'', shareCount = 0, sharePercentage = 0\<rparr>,
             \<lparr>shareStatus = ''completed'', shareCount = 0, sharePercentage = 0\<rparr>],
          focusArea = ''Build the habit''\<rparr>"
    by (simp add: calculateMetrics_def total_tasks_def calculateStreak_def
        determineFocusArea_def STATUS_KEYS_def mathRound_zero)
  have t: "total_tasks tasks = max 1 (length tasks)"
    by (cases tasks) (simp_all add: total_tasks_def)
  then have nz: "total_tasks tasks \<noteq> 0"
    by simp
  have r: "completionRate m
            = of_nat (length (filter (\<lambda>t. status t = ''completed'') tasks))
                / of_nat (total_tasks tasks)
          \<and> 0 \<le> completionRate m \<and> completionRate m \<le> 1"
    if "calculateMetrics off now tasks = Inr m" for m
  proof -
    have eq: "completionRate m
            = of_nat (length (filter (\<lambda>t. status t = ''completed'') tasks))
                / of_nat (total_tasks tasks)"
      using that unfolding t by (auto simp: calculateMetrics_unfold split: sum.splits)
    have "length (filter (\<lambda>t. status t = ''completed'') tasks) \<le> total_tasks tasks"
      unfolding t using length_filter_le [of "\<lambda>t. status t = ''completed''" tasks]
      by linarith
    then have "(of_nat (length (filter (\<lambda>t. status t = ''completed'') tasks)) :: rat)
                 \<le> of_nat (total_tasks tasks)"
      by (simp only: of_nat_le_iff)
    moreover have "(0 :: rat) < of_nat (total_tasks tasks)"
      using nz by simp
    ultimately have "(of_nat (length (filter (\<lambda>t. status t = ''completed'') tasks)) :: rat)
                / of_nat (total_tasks tasks) \<le> 1"
      by (simp add: divide_le_eq)
    moreover have "(0 :: rat) \<le> of_nat (length (filter (\<lambda>t. status t = ''completed'') tasks))
                / of_nat (total_tasks tasks)"
      by simp
    ultimately show ?thesis
      using eq by simp
  qed
  from e t nz r show ?thesis
    by blast
qed

theorem calculateMetrics_empty_and_rate_witness:
  "(\<exists>m. calculateMetrics 0 sampleNow [kickoff, retro, docs] = Inr m
        \<and> completionRate m = 1 / 3)
   \<and> total_tasks [kickoff, retro, docs] = 3"
proof -
  have dated: "\<forall>t\<in>set [kickoff, retro, docs]. \<not> undated t"
    by (simp add: undated_def kickoff_def retro_def docs_def)
  then obtain m where m: "calculateMetrics 0 sampleNow [kickoff, retro, docs] = Inr m"
    using calculateMetrics_returns by blast
  note gen = calculateMetrics_empty_and_rate [of 0 sampleNow "[kickoff, retro, docs]"]
  have t: "total_tasks [kickoff, retro, docs] = 3"
    using gen by simp
  have "completionRate m
          = of_nat (length (filter (\<lambda>t. status t = ''completed'') [kickoff, retro, docs]))
              / of_nat (total_tasks [kickoff, retro, docs])"
    using gen m by blast
  also have "\<dots> = 1 / 3"
    unfolding t by (simp add: kickoff_def retro_def docs_def)
  finally show ?thesis
    using m t by blast
qed

end
